theory Spec2Isabelle
  imports Complex_Main "HOL-Library.Word"
begin

unbundle bit_operations_syntax

section \<open>Configuration (config.ts)\<close>

definition RECONNECT_DELAY_MS :: nat where
  "RECONNECT_DELAY_MS = 2000"

definition MAX_RECONNECT_ATTEMPTS :: nat where
  "MAX_RECONNECT_ATTEMPTS = 5"

section \<open>PCM samples\<close>

text \<open>
  A JavaScript number read from a \<open>Float32Array\<close> is a NaN, an infinity or a finite
  dyadic rational. The finite values are kept as rationals: every product formed below
  (a 24-bit significand times \<open>0x8000\<close> or \<open>0x7fff\<close>) and every quotient of a 16-bit
  integer by \<open>32768\<close> is exact in double precision, so rational arithmetic computes what
  the code computes on these values. Negative zero behaves as zero in all of them.
\<close>

datatype number = NaN | NegInf | Finite rat | PosInf

type_synonym int16 = "16 word"
type_synonym byte = "8 word"

text \<open>\<open>Math.max(-1, Math.min(1, x))\<close>: a NaN argument gives NaN.\<close>

fun clamp_unit :: "number \<Rightarrow> number" where
  "clamp_unit NaN = NaN"
| "clamp_unit NegInf = Finite (- 1)"
| "clamp_unit PosInf = Finite 1"
| "clamp_unit (Finite r) = Finite (max (- 1) (min 1 r))"

text \<open>\<open>s < 0 ? s * 0x8000 : s * 0x7fff\<close>: the comparison is false on NaN.\<close>

fun scale_sample :: "number \<Rightarrow> number" where
  "scale_sample NaN = NaN"
| "scale_sample NegInf = NegInf"
| "scale_sample PosInf = PosInf"
| "scale_sample (Finite s) = Finite (if s < 0 then s * 32768 else s * 32767)"

text \<open>
  Storing a number into an \<open>Int16Array\<close> (ToInt16): NaN and the infinities become 0, a
  finite value is truncated towards zero and reduced modulo \<open>2 ^ 16\<close>.
\<close>

definition trunc_zero :: "rat \<Rightarrow> int" where
  "trunc_zero r = (if r < 0 then - \<lfloor>- r\<rfloor> else \<lfloor>r\<rfloor>)"

fun ToInt16 :: "number \<Rightarrow> int16" where
  "ToInt16 (Finite r) = word_of_int (trunc_zero r)"
| "ToInt16 _ = 0"

definition float32ToInt16_sample :: "number \<Rightarrow> int16" where
  "float32ToInt16_sample x = ToInt16 (scale_sample (clamp_unit x))"

text \<open>\<open>MicrophoneCapture.float32ToInt16\<close>: the loop fills \<open>out[i]\<close> from \<open>buffer[i]\<close>.\<close>

definition float32ToInt16 :: "number list \<Rightarrow> int16 list" where
  "float32ToInt16 buffer = map float32ToInt16_sample buffer"

text \<open>
  The decoding loop of \<open>AudioPlayer.queueAudio\<close>: \<open>float32[i] = int16[i] / 32768.0\<close>.
\<close>

definition decode_sample :: "int16 \<Rightarrow> number" where
  "decode_sample v = Finite (of_int (sint v) / 32768)"

definition decode_int16 :: "int16 list \<Rightarrow> number list" where
  "decode_int16 int16 = map decode_sample int16"

section \<open>Playback queue (audio-player.ts)\<close>

datatype exn = RangeError | NotSupportedError | DeviceError string

text \<open>
  \<open>new Int16Array(data)\<close> views the bytes as little-endian 16-bit integers and throws
  a RangeError when the byte length is odd.
\<close>

fun int16_pairs :: "byte list \<Rightarrow> int16 list" where
  "int16_pairs (lo # hi # rest) = (ucast lo OR push_bit 8 (ucast hi)) # int16_pairs rest"
| "int16_pairs _ = []"

definition Int16Array :: "byte list \<Rightarrow> exn + int16 list" where
  "Int16Array data = (if odd (length data) then Inl RangeError else Inr (int16_pairs data))"

record AudioBuffer =
  channelData :: "number list"
  sampleRate :: nat

text \<open>
  \<open>audioContext.createBuffer(1, length, sampleRate)\<close> followed by \<open>copyToChannel\<close>.
  The platform throws NotSupportedError for a length of zero and for a sample rate it
  does not support; every platform supports 8000 to 96000 Hz, and that range is the one
  accepted here.
\<close>

definition createBuffer :: "number list \<Rightarrow> nat \<Rightarrow> exn + AudioBuffer" where
  "createBuffer float32 rate =
     (if length float32 = 0 \<or> rate < 8000 \<or> 96000 < rate then Inl NotSupportedError
      else Inr \<lparr>channelData = float32, sampleRate = rate\<rparr>)"

text \<open>
  The player. Every source that \<open>playNext\<close> starts fires its \<open>ended\<close> event once, when
  its segment has played to the end or after \<open>stop()\<close> has halted it, and each source
  carries the same handler, which does not look at the source it belongs to. \<open>live\<close>
  counts the sources started whose \<open>ended\<close> event the platform has not yet delivered.
  The calls made to the \<open>onPlaybackStart\<close> and \<open>onPlaybackEnd\<close> callbacks are returned
  as a list of signals, in call order.
\<close>

record AudioPlayer =
  queue :: "AudioBuffer list"
  isPlaying :: bool
  currentSource :: "AudioBuffer option"
  live :: nat

datatype signal = PlaybackStart | PlaybackEnd

definition new_AudioPlayer :: AudioPlayer where
  "new_AudioPlayer = \<lparr>queue = [], isPlaying = False, currentSource = None, live = 0\<rparr>"

definition playNext :: "AudioPlayer \<Rightarrow> AudioPlayer \<times> signal list" where
  "playNext p =
     (case queue p of
        [] \<Rightarrow> (p\<lparr>isPlaying := False\<rparr>, [PlaybackEnd])
      | buffer # rest \<Rightarrow>
          (p\<lparr>isPlaying := True, queue := rest, currentSource := Some buffer,
             live := Suc (live p)\<rparr>,
           if length rest = 0 then [PlaybackStart] else []))"

text \<open>The common tail of \<open>queueAudio\<close> and \<open>queueBlob\<close>: push, then start a run if idle.\<close>

definition enqueue :: "AudioPlayer \<Rightarrow> AudioBuffer \<Rightarrow> AudioPlayer \<times> signal list" where
  "enqueue p audioBuffer =
     (let p' = p\<lparr>queue := queue p @ [audioBuffer]\<rparr>
      in if \<not> isPlaying p' then playNext p' else (p', []))"

text \<open>\<open>queueAudio(data, sampleRate = 22050)\<close>: an absent rate takes the default.\<close>

definition queueAudio ::
  "AudioPlayer \<Rightarrow> byte list \<Rightarrow> nat option \<Rightarrow> exn + AudioPlayer \<times> signal list" where
  "queueAudio p data rate =
     (let sampleRate = (case rate of None \<Rightarrow> 22050 | Some r \<Rightarrow> r)
      in case Int16Array data of
           Inl e \<Rightarrow> Inl e
         | Inr int16 \<Rightarrow>
             (case createBuffer (decode_int16 int16) sampleRate of
                Inl e \<Rightarrow> Inl e
              | Inr audioBuffer \<Rightarrow> Inr (enqueue p audioBuffer)))"

text \<open>The \<open>onended\<close> handler installed on every source by \<open>playNext\<close>.\<close>

definition onended :: "AudioPlayer \<Rightarrow> AudioPlayer \<times> signal list" where
  "onended p = playNext (p\<lparr>currentSource := None\<rparr>)"

definition AudioPlayer_stop :: "AudioPlayer \<Rightarrow> AudioPlayer" where
  "AudioPlayer_stop p =
     p\<lparr>queue := [], currentSource := None, isPlaying := False\<rparr>"

text \<open>
  The platform delivers the \<open>ended\<close> event of a source: there must be one that was
  started and has not ended yet.
\<close>

definition source_ended :: "AudioPlayer \<Rightarrow> AudioPlayer \<times> signal list" where
  "source_ended p = (if live p = 0 then (p, []) else onended (p\<lparr>live := live p - 1\<rparr>))"

text \<open>Runs of the player under enqueue and segment-completion events.\<close>

datatype player_event = Enqueue AudioBuffer | Ended

fun player_step :: "AudioPlayer \<Rightarrow> player_event \<Rightarrow> AudioPlayer \<times> signal list" where
  "player_step p (Enqueue b) = enqueue p b"
| "player_step p Ended = source_ended p"

fun player_run :: "AudioPlayer \<Rightarrow> player_event list \<Rightarrow> AudioPlayer \<times> signal list" where
  "player_run p [] = (p, [])"
| "player_run p (e # es) =
     (let (p1, out1) = player_step p e; (p2, out2) = player_run p1 es
      in (p2, out1 @ out2))"

text \<open>The segments the player holds, in play order.\<close>

definition segments :: "AudioPlayer \<Rightarrow> AudioBuffer list" where
  "segments p = (case currentSource p of None \<Rightarrow> [] | Some b \<Rightarrow> [b]) @ queue p"

section \<open>Silence-aware capture (microphone.ts)\<close>

type_synonym chunk = "number list"

text \<open>
  The calls made to \<open>options.onAudioChunk\<close> and \<open>options.onSilence\<close>, in call order.
\<close>

datatype mic_signal = AudioChunk chunk nat | Silence "number list"

text \<open>
  \<open>timeouts\<close> holds the handles of the \<open>setTimeout\<close> callbacks of this object that the
  platform has pending, \<open>nextHandle\<close> the next fresh handle. The media stream, the audio
  context and the three graph nodes are acquired together by \<open>start\<close> and released
  together by \<open>stop\<close>; \<open>mediaStream\<close> stands for all five.
\<close>

record MicrophoneCapture =
  mediaStream :: bool
  isRecording :: bool
  silenceTimer :: "nat option"
  audioBuffer :: "chunk list"
  timeouts :: "nat list"
  nextHandle :: nat

definition new_MicrophoneCapture :: MicrophoneCapture where
  "new_MicrophoneCapture =
     \<lparr>mediaStream = False, isRecording = False, silenceTimer = None, audioBuffer = [],
      timeouts = [], nextHandle = 1\<rparr>"

datatype getUserMedia = Granted | Denied string

definition MicrophoneCapture_start ::
  "MicrophoneCapture \<Rightarrow> getUserMedia \<Rightarrow> exn + MicrophoneCapture" where
  "MicrophoneCapture_start m device =
     (if isRecording m then Inr m
      else case device of
             Denied msg \<Rightarrow> Inl (DeviceError msg)
           | Granted \<Rightarrow> Inr (m\<lparr>mediaStream := True, isRecording := True\<rparr>))"

text \<open>\<open>merged.set(chunk, offset)\<close> on a typed array; the offsets used stay in range.\<close>

definition set_at :: "number list \<Rightarrow> chunk \<Rightarrow> nat \<Rightarrow> number list" where
  "set_at merged chunk offset =
     take offset merged @ chunk @ drop (offset + length chunk) merged"

fun merge_loop :: "chunk list \<Rightarrow> number list \<Rightarrow> nat \<Rightarrow> number list" where
  "merge_loop [] merged offset = merged"
| "merge_loop (chunk # rest) merged offset =
     merge_loop rest (set_at merged chunk offset) (offset + length chunk)"

definition merge_chunks :: "chunk list \<Rightarrow> number list" where
  "merge_chunks buf =
     (let totalLength = foldl (\<lambda>acc chunk. acc + length chunk) 0 buf
      in merge_loop buf (replicate totalLength (Finite 0)) 0)"

definition flushBuffer :: "MicrophoneCapture \<Rightarrow> MicrophoneCapture \<times> mic_signal list" where
  "flushBuffer m =
     (if length (audioBuffer m) = 0 then (m, [])
      else (m\<lparr>audioBuffer := []\<rparr>, [Silence (merge_chunks (audioBuffer m))]))"

definition setTimeout_flush :: "MicrophoneCapture \<Rightarrow> MicrophoneCapture" where
  "setTimeout_flush m =
     m\<lparr>silenceTimer := Some (nextHandle m), timeouts := timeouts m @ [nextHandle m],
       nextHandle := Suc (nextHandle m)\<rparr>"

definition clearTimeout_silence :: "MicrophoneCapture \<Rightarrow> MicrophoneCapture" where
  "clearTimeout_silence m =
     (case silenceTimer m of
        None \<Rightarrow> m
      | Some h \<Rightarrow> m\<lparr>timeouts := removeAll h (timeouts m), silenceTimer := None\<rparr>)"

text \<open>
  The \<open>onaudioprocess\<close> handler. The test \<open>calculateRMS(chunk) < SILENCE_THRESHOLD\<close> is a
  floating-point sum, quotient and square root; its outcome on a chunk is the parameter
  \<open>silent\<close>, so that what follows holds for every outcome of that arithmetic.
\<close>

definition onaudioprocess ::
  "(chunk \<Rightarrow> bool) \<Rightarrow> MicrophoneCapture \<Rightarrow> chunk \<Rightarrow> nat \<Rightarrow> MicrophoneCapture \<times> mic_signal list" where
  "onaudioprocess silent m chunk timestamp =
     (if \<not> isRecording m then (m, [])
      else
        let m1 = m\<lparr>audioBuffer := audioBuffer m @ [chunk]\<rparr>;
            m2 = (if silent chunk
                  then (if silenceTimer m1 = None then setTimeout_flush m1 else m1)
                  else clearTimeout_silence m1)
        in (m2, [AudioChunk chunk timestamp]))"

text \<open>
  The debounce timer with handle \<open>h\<close> elapses: the platform runs the callback only if the
  timeout is still pending. The callback leaves \<open>silenceTimer\<close> as it is.
\<close>

definition silence_timeout :: "MicrophoneCapture \<Rightarrow> nat \<Rightarrow> MicrophoneCapture \<times> mic_signal list" where
  "silence_timeout m h =
     (if h \<in> set (timeouts m) then flushBuffer (m\<lparr>timeouts := removeAll h (timeouts m)\<rparr>)
      else (m, []))"

definition MicrophoneCapture_stop :: "MicrophoneCapture \<Rightarrow> MicrophoneCapture \<times> mic_signal list" where
  "MicrophoneCapture_stop m =
     (let (m1, out) = flushBuffer (clearTimeout_silence (m\<lparr>isRecording := False\<rparr>))
      in (m1\<lparr>mediaStream := False\<rparr>, out))"

datatype capture_event = AudioProcess chunk nat | Timeout nat

fun capture_step ::
  "(chunk \<Rightarrow> bool) \<Rightarrow> MicrophoneCapture \<Rightarrow> capture_event \<Rightarrow> MicrophoneCapture \<times> mic_signal list" where
  "capture_step silent m (AudioProcess chunk timestamp) = onaudioprocess silent m chunk timestamp"
| "capture_step silent m (Timeout h) = silence_timeout m h"

fun capture_run ::
  "(chunk \<Rightarrow> bool) \<Rightarrow> MicrophoneCapture \<Rightarrow> capture_event list \<Rightarrow> MicrophoneCapture \<times> mic_signal list" where
  "capture_run silent m [] = (m, [])"
| "capture_run silent m (e # es) =
     (let (m1, out1) = capture_step silent m e; (m2, out2) = capture_run silent m1 es
      in (m2, out1 @ out2))"

fun is_Silence :: "mic_signal \<Rightarrow> bool" where
  "is_Silence (Silence _) = True"
| "is_Silence (AudioChunk _ _) = False"

fun chunk_of :: "capture_event \<Rightarrow> chunk list" where
  "chunk_of (AudioProcess chunk _) = [chunk]"
| "chunk_of (Timeout _) = []"

fun chunk_signal :: "capture_event \<Rightarrow> mic_signal list" where
  "chunk_signal (AudioProcess chunk timestamp) = [AudioChunk chunk timestamp]"
| "chunk_signal (Timeout _) = []"

fun quiet_event :: "(chunk \<Rightarrow> bool) \<Rightarrow> capture_event \<Rightarrow> bool" where
  "quiet_event silent (AudioProcess chunk _) = silent chunk"
| "quiet_event silent (Timeout _) = True"

section \<open>Protocol session (websocket.ts)\<close>

datatype ConversationState = idle | listening | processing | speaking

datatype readyState = CONNECTING | OPEN | CLOSING | CLOSED

text \<open>
  An inbound JSON message after \<open>JSON.parse\<close>, by its \<open>type\<close> tag. A payload of \<open>None\<close>
  is a message whose \<open>data\<close> is absent or unusable (for \<open>response_audio\<close> also one whose
  base64 text \<open>atob\<close> rejects): reading it throws before the handler has done anything.
  The audio payload is given as the bytes \<open>atob\<close> yields, with the optional sample rate.
\<close>

datatype WSMessage =
    session_start "string option"
  | transcript "(string \<times> bool) option"
  | response_text "(string \<times> bool) option"
  | response_audio "(byte list \<times> nat option) option"
  | response_audio_end
  | error "string option"
  | pong
  | other string

text \<open>The data of a message event: a binary frame, or text that parses (or does not).\<close>

datatype MessageEvent = Binary "byte list" | Text "WSMessage option"

text \<open>
  What the session does to the outside, in order: frames sent on the socket, calls of the
  user's callbacks, and the platform calls that open a socket or arm the reconnect timer.
\<close>

datatype effect =
    send_json string
  | send_binary "int16 list"
  | onTranscript string bool
  | onResponseText string bool
  | onConnected
  | onDisconnected
  | onError string
  | onStateChange ConversationState
  | setTimeout nat
  | new_WebSocket

text \<open>
  \<open>sockets\<close> and \<open>microphones\<close> are the objects created so far, by creation index: an
  object the session no longer refers to still delivers its events to the handlers it was
  given. \<open>intervals\<close> holds the pending heartbeat handles, \<open>reconnectTimers\<close> the delays
  of the pending reconnect timeouts (the code keeps no handle to them).

  The user's callbacks are optional, and a call \<open>callback?.(argument)\<close> of an absent one
  does nothing, not even evaluate its argument. That changes what the session itself
  does in one place, the \<open>error\<close> handler, where reading the argument can throw;
  \<open>onError_given\<close> says whether that callback is there. The calls of the other
  callbacks are recorded as made.
\<close>

record VoiceAgentWebSocket =
  sockets :: "readyState list"
  ws :: "nat option"
  microphones :: "MicrophoneCapture list"
  microphone :: "nat option"
  audioPlayer :: AudioPlayer
  sessionId :: "string option"
  reconnectAttempts :: nat
  pingInterval :: "nat option"
  state :: ConversationState
  intervals :: "nat list"
  reconnectTimers :: "nat list"
  nextTimer :: nat
  effects :: "effect list"
  onError_given :: bool

definition new_VoiceAgentWebSocket :: VoiceAgentWebSocket where
  "new_VoiceAgentWebSocket =
     \<lparr>sockets = [], ws = None, microphones = [], microphone = None,
      audioPlayer = new_AudioPlayer, sessionId = None, reconnectAttempts = 0,
      pingInterval = None, state = idle, intervals = [], reconnectTimers = [],
      nextTimer = 1, effects = [], onError_given = True\<rparr>"

definition nth_opt :: "'a list \<Rightarrow> nat \<Rightarrow> 'a option" where
  "nth_opt xs i = (if i < length xs then Some (xs ! i) else None)"

definition emit :: "VoiceAgentWebSocket \<Rightarrow> effect \<Rightarrow> VoiceAgentWebSocket" where
  "emit s e = s\<lparr>effects := effects s @ [e]\<rparr>"

text \<open>\<open>this.callbacks.onError?.(message)\<close>\<close>

definition call_onError :: "VoiceAgentWebSocket \<Rightarrow> string \<Rightarrow> VoiceAgentWebSocket" where
  "call_onError s message = (if onError_given s then emit s (onError message) else s)"

text \<open>\<open>this.ws?.readyState\<close>\<close>

definition ws_readyState :: "VoiceAgentWebSocket \<Rightarrow> readyState option" where
  "ws_readyState s = (case ws s of None \<Rightarrow> None | Some i \<Rightarrow> nth_opt (sockets s) i)"

definition setState :: "VoiceAgentWebSocket \<Rightarrow> ConversationState \<Rightarrow> VoiceAgentWebSocket" where
  "setState s st = (if state s \<noteq> st then emit (s\<lparr>state := st\<rparr>) (onStateChange st) else s)"

definition sendJSON :: "VoiceAgentWebSocket \<Rightarrow> string \<Rightarrow> VoiceAgentWebSocket" where
  "sendJSON s type = (if ws_readyState s = Some OPEN then emit s (send_json type) else s)"

definition sendBinary :: "VoiceAgentWebSocket \<Rightarrow> int16 list \<Rightarrow> VoiceAgentWebSocket" where
  "sendBinary s data = (if ws_readyState s = Some OPEN then emit s (send_binary data) else s)"

text \<open>The player callbacks given in the constructor.\<close>

fun on_player_signal :: "VoiceAgentWebSocket \<Rightarrow> signal \<Rightarrow> VoiceAgentWebSocket" where
  "on_player_signal s PlaybackStart = setState s speaking"
| "on_player_signal s PlaybackEnd = setState s idle"

text \<open>
  A call of \<open>audioPlayer.queueAudio\<close> from the session. The method is \<open>async\<close>: what it
  throws rejects a promise nobody awaits, and nothing has been queued by then.
\<close>

definition session_queueAudio ::
  "VoiceAgentWebSocket \<Rightarrow> byte list \<Rightarrow> nat option \<Rightarrow> VoiceAgentWebSocket" where
  "session_queueAudio s data rate =
     (case queueAudio (audioPlayer s) data rate of
        Inl e \<Rightarrow> s
      | Inr (p, out) \<Rightarrow> foldl on_player_signal (s\<lparr>audioPlayer := p\<rparr>) out)"

definition handleAudioChunk :: "VoiceAgentWebSocket \<Rightarrow> byte list \<Rightarrow> VoiceAgentWebSocket" where
  "handleAudioChunk s data = session_queueAudio s data None"

fun handleJSON :: "VoiceAgentWebSocket \<Rightarrow> WSMessage \<Rightarrow> VoiceAgentWebSocket" where
  "handleJSON s (session_start None) = s"
| "handleJSON s (session_start (Some session_id)) = s\<lparr>sessionId := Some session_id\<rparr>"
| "handleJSON s (transcript None) = s"
| "handleJSON s (transcript (Some (text, is_final))) =
     (let s1 = emit s (onTranscript text is_final)
      in if is_final then setState s1 processing else s1)"
| "handleJSON s (response_text None) = s"
| "handleJSON s (response_text (Some (text, is_final))) = emit s (onResponseText text is_final)"
| "handleJSON s (response_audio None) = s"
| "handleJSON s (response_audio (Some (bytes, sample_rate))) =
     session_queueAudio s bytes sample_rate"
| "handleJSON s response_audio_end = s"
| "handleJSON s (error None) = (if onError_given s then s else setState s idle)"
| "handleJSON s (error (Some message)) = setState (call_onError s message) idle"
| "handleJSON s pong = s"
| "handleJSON s (other _) = s"

fun handleMessage :: "VoiceAgentWebSocket \<Rightarrow> MessageEvent \<Rightarrow> VoiceAgentWebSocket" where
  "handleMessage s (Binary data) = handleAudioChunk s data"
| "handleMessage s (Text None) = s"
| "handleMessage s (Text (Some message)) = handleJSON s message"

text \<open>The capture callbacks given in \<open>startListening\<close>.\<close>

fun on_mic_signal :: "VoiceAgentWebSocket \<Rightarrow> mic_signal \<Rightarrow> VoiceAgentWebSocket" where
  "on_mic_signal s (AudioChunk chunk timestamp) =
     (if ws_readyState s \<noteq> Some OPEN then s else sendBinary s (float32ToInt16 chunk))"
| "on_mic_signal s (Silence merged) = setState (sendJSON s ''audio_end'') processing"

text \<open>
  \<open>startListening\<close>, with its two awaits taken as completing without another event in
  between. The result carries the exception the returned promise rejects with, if any.
\<close>

definition startListening ::
  "VoiceAgentWebSocket \<Rightarrow> getUserMedia \<Rightarrow> VoiceAgentWebSocket \<times> exn option" where
  "startListening s device =
     (let s1 = s\<lparr>audioPlayer := AudioPlayer_stop (audioPlayer s)\<rparr>;
          i = length (microphones s1)
      in case MicrophoneCapture_start new_MicrophoneCapture device of
           Inl e \<Rightarrow>
             (call_onError
                (s1\<lparr>microphones := microphones s1 @ [new_MicrophoneCapture],
                    microphone := Some i\<rparr>)
                (case e of DeviceError msg \<Rightarrow> msg | _ \<Rightarrow> []),
              Some e)
         | Inr m \<Rightarrow>
             (sendJSON
                (setState (s1\<lparr>microphones := microphones s1 @ [m], microphone := Some i\<rparr>)
                   listening)
                ''session_start'',
              None))"

definition stopListening :: "VoiceAgentWebSocket \<Rightarrow> VoiceAgentWebSocket" where
  "stopListening s =
     (let s1 = (case microphone s of
                  None \<Rightarrow> s
                | Some i \<Rightarrow>
                    (case nth_opt (microphones s) i of
                       None \<Rightarrow> s
                     | Some m \<Rightarrow>
                         (let (m', out) = MicrophoneCapture_stop m
                          in foldl on_mic_signal (s\<lparr>microphones := (microphones s)[i := m']\<rparr>) out)));
          s2 = s1\<lparr>microphone := None\<rparr>
      in if state s2 = listening then setState s2 idle else s2)"

definition startPing :: "VoiceAgentWebSocket \<Rightarrow> VoiceAgentWebSocket" where
  "startPing s =
     s\<lparr>pingInterval := Some (nextTimer s), intervals := intervals s @ [nextTimer s],
       nextTimer := Suc (nextTimer s)\<rparr>"

definition stopPing :: "VoiceAgentWebSocket \<Rightarrow> VoiceAgentWebSocket" where
  "stopPing s =
     (case pingInterval s of
        None \<Rightarrow> s
      | Some h \<Rightarrow> s\<lparr>intervals := removeAll h (intervals s), pingInterval := None\<rparr>)"

definition connect :: "VoiceAgentWebSocket \<Rightarrow> VoiceAgentWebSocket" where
  "connect s =
     emit (s\<lparr>sockets := sockets s @ [CONNECTING], ws := Some (length (sockets s))\<rparr>)
       new_WebSocket"

definition attemptReconnect :: "VoiceAgentWebSocket \<Rightarrow> VoiceAgentWebSocket" where
  "attemptReconnect s =
     (if reconnectAttempts s \<ge> MAX_RECONNECT_ATTEMPTS then s
      else emit (s\<lparr>reconnectAttempts := Suc (reconnectAttempts s),
                    reconnectTimers := reconnectTimers s @ [RECONNECT_DELAY_MS]\<rparr>)
             (setTimeout RECONNECT_DELAY_MS))"

text \<open>The continuation of \<open>attemptReconnect\<close> when its timeout elapses.\<close>

definition reconnect_timeout :: "VoiceAgentWebSocket \<Rightarrow> VoiceAgentWebSocket" where
  "reconnect_timeout s =
     (case reconnectTimers s of
        [] \<Rightarrow> s
      | delay # rest \<Rightarrow> connect (s\<lparr>reconnectTimers := rest\<rparr>))"

definition onopen :: "VoiceAgentWebSocket \<Rightarrow> VoiceAgentWebSocket" where
  "onopen s = emit (startPing (s\<lparr>reconnectAttempts := 0\<rparr>)) onConnected"

definition onclose :: "VoiceAgentWebSocket \<Rightarrow> VoiceAgentWebSocket" where
  "onclose s = attemptReconnect (emit (stopPing s) onDisconnected)"

text \<open>\<open>WebSocket.close()\<close>: a socket not yet closed starts closing.\<close>

fun WebSocket_close :: "readyState \<Rightarrow> readyState" where
  "WebSocket_close CLOSED = CLOSED"
| "WebSocket_close _ = CLOSING"

definition disconnect :: "VoiceAgentWebSocket \<Rightarrow> VoiceAgentWebSocket" where
  "disconnect s =
     (let s1 = stopListening (stopPing s);
          s2 = (case ws s1 of
                  None \<Rightarrow> s1
                | Some i \<Rightarrow>
                    (case nth_opt (sockets s1) i of
                       None \<Rightarrow> s1
                     | Some r \<Rightarrow> s1\<lparr>sockets := (sockets s1)[i := WebSocket_close r]\<rparr>))
      in s2\<lparr>ws := None\<rparr>)"

text \<open>
  The events of a session. The platform opens only a connecting socket, closes only a
  socket that is not closed yet, delivers messages only on an open socket, and reports
  the end only of a source that was started and has not ended yet; an event it cannot
  deliver changes nothing.
\<close>

datatype event =
    Connect
  | Open nat
  | Close nat
  | Message nat MessageEvent
  | ReconnectTimeout
  | Heartbeat nat
  | StartListening getUserMedia
  | StopListening
  | Disconnect
  | MicAudio nat chunk nat
  | MicTimeout nat nat
  | SourceEnded

definition with_microphone ::
  "VoiceAgentWebSocket \<Rightarrow> nat \<Rightarrow> (MicrophoneCapture \<Rightarrow> MicrophoneCapture \<times> mic_signal list)
     \<Rightarrow> VoiceAgentWebSocket" where
  "with_microphone s i f =
     (case nth_opt (microphones s) i of
        None \<Rightarrow> s
      | Some m \<Rightarrow>
          (let (m', out) = f m
           in foldl on_mic_signal (s\<lparr>microphones := (microphones s)[i := m']\<rparr>) out))"

definition with_player ::
  "VoiceAgentWebSocket \<Rightarrow> (AudioPlayer \<Rightarrow> AudioPlayer \<times> signal list) \<Rightarrow> VoiceAgentWebSocket" where
  "with_player s f =
     (let (p, out) = f (audioPlayer s)
      in foldl on_player_signal (s\<lparr>audioPlayer := p\<rparr>) out)"

fun step :: "(chunk \<Rightarrow> bool) \<Rightarrow> VoiceAgentWebSocket \<Rightarrow> event \<Rightarrow> VoiceAgentWebSocket" where
  "step silent s Connect = connect s"
| "step silent s (Open i) =
     (if nth_opt (sockets s) i = Some CONNECTING
      then onopen (s\<lparr>sockets := (sockets s)[i := OPEN]\<rparr>) else s)"
| "step silent s (Close i) =
     (if nth_opt (sockets s) i \<in> {Some CONNECTING, Some OPEN, Some CLOSING}
      then onclose (s\<lparr>sockets := (sockets s)[i := CLOSED]\<rparr>) else s)"
| "step silent s (Message i m) =
     (if nth_opt (sockets s) i = Some OPEN then handleMessage s m else s)"
| "step silent s ReconnectTimeout = reconnect_timeout s"
| "step silent s (Heartbeat h) =
     (if h \<in> set (intervals s) then sendJSON s ''ping'' else s)"
| "step silent s (StartListening device) = fst (startListening s device)"
| "step silent s StopListening = stopListening s"
| "step silent s Disconnect = disconnect s"
| "step silent s (MicAudio i chunk timestamp) =
     with_microphone s i (\<lambda>m. onaudioprocess silent m chunk timestamp)"
| "step silent s (MicTimeout i h) = with_microphone s i (\<lambda>m. silence_timeout m h)"
| "step silent s SourceEnded = with_player s source_ended"

definition run :: "(chunk \<Rightarrow> bool) \<Rightarrow> VoiceAgentWebSocket \<Rightarrow> event list \<Rightarrow> VoiceAgentWebSocket" where
  "run silent s es = foldl (step silent) s es"

text \<open>
  Whether \<open>queueAudio\<close> accepts the bytes at the rate given: an even, non-zero number
  of bytes and a rate that \<open>createBuffer\<close> takes.
\<close>

definition queueable :: "byte list \<Rightarrow> nat option \<Rightarrow> bool" where
  "queueable data rate =
     (even (length data) \<and> data \<noteq> []
      \<and> 8000 \<le> (case rate of None \<Rightarrow> 22050 | Some r \<Rightarrow> r)
      \<and> (case rate of None \<Rightarrow> 22050 | Some r \<Rightarrow> r) \<le> 96000)"

text \<open>Whether the microphone the session refers to has chunks buffered.\<close>

definition pending_flush :: "VoiceAgentWebSocket \<Rightarrow> bool" where
  "pending_flush s =
     (case microphone s of
        None \<Rightarrow> False
      | Some i \<Rightarrow>
          (case nth_opt (microphones s) i of
             None \<Rightarrow> False
           | Some m \<Rightarrow> audioBuffer m \<noteq> []))"

text \<open>
  The events of \<open>k\<close> reconnect attempts that each fail: socket \<open>i\<close> closes, the reconnect
  timeout elapses and opens the socket with index \<open>n\<close>, which closes in turn, and so on.
\<close>

fun failing_closes :: "nat \<Rightarrow> nat \<Rightarrow> nat \<Rightarrow> event list" where
  "failing_closes i n 0 = []"
| "failing_closes i n (Suc k) = Close i # ReconnectTimeout # failing_closes n (Suc n) k"

text \<open>At most one debounce timeout is pending, and it is the one \<open>silenceTimer\<close> names.\<close>

definition timer_inv :: "MicrophoneCapture \<Rightarrow> bool" where
  "timer_inv m =
     (case silenceTimer m of
        None \<Rightarrow> timeouts m = []
      | Some h \<Rightarrow> timeouts m = [] \<or> timeouts m = [h])"

section \<open>Properties of the PCM conversion\<close>

lemma trunc_zero_of_int: "trunc_zero (of_int k) = k"
  by (simp add: trunc_zero_def)

lemma sint_word_of_int_16:
  assumes "- 32768 \<le> k" and "k < 32768"
  shows "sint (word_of_int k :: int16) = k"
  using assms by (simp add: signed_of_int signed_take_bit_int_eq_self)

lemma floor_scaled_nonneg:
  fixes s :: rat
  assumes "0 \<le> s" and "s \<le> 1"
  shows "0 \<le> \<lfloor>s * 32767\<rfloor>" and "\<lfloor>s * 32767\<rfloor> < 32768"
proof -
  from assms show "0 \<le> \<lfloor>s * 32767\<rfloor>" by simp
  from assms have "s * 32767 < 32768" by simp
  then show "\<lfloor>s * 32767\<rfloor> < 32768" by (simp add: floor_less_iff)
qed

lemma ceiling_scaled_neg:
  fixes s :: rat
  assumes "- 1 \<le> s" and "s < 0"
  shows "- 32768 \<le> \<lceil>s * 32768\<rceil>" and "\<lceil>s * 32768\<rceil> < 32768"
proof -
  from assms have "- 32768 \<le> s * 32768" by simp
  then show "- 32768 \<le> \<lceil>s * 32768\<rceil>" by (simp add: le_ceiling_iff)
  from assms have "s * 32768 \<le> 0" by simp
  then have "\<lceil>s * 32768\<rceil> \<le> 0" by (simp add: ceiling_le_iff)
  then show "\<lceil>s * 32768\<rceil> < 32768" by simp
qed

lemma float32ToInt16_sample_Finite:
  "sint (float32ToInt16_sample (Finite r)) =
     (if r < 0 then \<lceil>max (- 1) r * 32768\<rceil> else \<lfloor>min 1 r * 32767\<rfloor>)"
proof (cases "r < 0")
  case True
  define s where "s = max (- 1) r"
  from True have s: "- 1 \<le> s" "s < 0" by (simp_all add: s_def)
  from True have "clamp_unit (Finite r) = Finite s" by (simp add: s_def)
  moreover from s have "scale_sample (Finite s) = Finite (s * 32768)" by simp
  moreover from s have "trunc_zero (s * 32768) = - \<lfloor>- (s * 32768)\<rfloor>"
    by (simp add: trunc_zero_def mult_less_0_iff)
  ultimately have "float32ToInt16_sample (Finite r) = word_of_int (- \<lfloor>- (s * 32768)\<rfloor>)"
    by (simp add: float32ToInt16_sample_def)
  also have "- \<lfloor>- (s * 32768)\<rfloor> = \<lceil>s * 32768\<rceil>"
    by (simp add: ceiling_def)
  finally show ?thesis
    using True ceiling_scaled_neg [OF s] by (simp add: sint_word_of_int_16 s_def)
next
  case False
  define s where "s = min 1 r"
  from False have s: "0 \<le> s" "s \<le> 1" by (simp_all add: s_def)
  from False have "clamp_unit (Finite r) = Finite s" by (simp add: s_def)
  moreover from s have "scale_sample (Finite s) = Finite (s * 32767)" by simp
  moreover from s have "trunc_zero (s * 32767) = \<lfloor>s * 32767\<rfloor>"
    by (simp add: trunc_zero_def mult_less_0_iff)
  ultimately have "float32ToInt16_sample (Finite r) = word_of_int \<lfloor>s * 32767\<rfloor>"
    by (simp add: float32ToInt16_sample_def)
  then show ?thesis
    using False floor_scaled_nonneg [OF s] by (simp add: sint_word_of_int_16 s_def)
qed

text \<open>
  Claim C4. Encoding the float sample \<open>+1.0\<close> yields 32767, encoding \<open>-1.0\<close> yields
  \<open>-32768\<close>, and the playback decoder maps the 16-bit value 16384 to the float 0.5.
\<close>

theorem pcm_examples:
  "map sint (float32ToInt16 [Finite 1, Finite (- 1)]) = [32767, - 32768]
   \<and> decode_int16 [16384] = [Finite (1 / 2)]"
  by (simp add: float32ToInt16_def float32ToInt16_sample_def trunc_zero_def
      decode_int16_def decode_sample_def)

text \<open>
  Claim C3, as the code has it. The conversion maps each sample on its own; a finite
  sample is clamped to \<open>[-1, 1]\<close> and then scaled by 32768 when it is negative and by
  32767 otherwise, the product being truncated towards zero (a ceiling for the negative
  samples, a floor for the others), and the result always fits 16 bits. The infinities
  clamp to the two ends, and NaN is stored as 0.
\<close>

theorem float32ToInt16_scaling:
  "float32ToInt16 buffer = map float32ToInt16_sample buffer
   \<and> sint (float32ToInt16_sample (Finite r)) =
       (if r < 0 then \<lceil>max (- 1) r * 32768\<rceil> else \<lfloor>min 1 r * 32767\<rfloor>)
   \<and> sint (float32ToInt16_sample PosInf) = 32767
   \<and> sint (float32ToInt16_sample NegInf) = - 32768
   \<and> sint (float32ToInt16_sample NaN) = 0"
  by (simp add: float32ToInt16_def float32ToInt16_sample_Finite)
     (simp add: float32ToInt16_sample_def trunc_zero_def)

text \<open>
  Claim C3 as stated (negative samples scaled by 32767, positive ones by 32768) fails:
  the sample \<open>1/2\<close> is not stored as \<open>1/2 * 32768\<close>, nor \<open>-1/2\<close> as \<open>-1/2 * 32767\<close>.
\<close>

theorem float32ToInt16_scaling_counterexample:
  "float32ToInt16_sample (Finite (1 / 2)) \<noteq> ToInt16 (Finite (1 / 2 * 32768))
   \<and> float32ToInt16_sample (Finite (- 1 / 2)) \<noteq> ToInt16 (Finite (- 1 / 2 * 32767))"
  by code_simp




section \<open>Properties of the playback queue\<close>

lemma playNext_start_iff:
  "PlaybackStart \<in> set (snd (playNext p)) \<longleftrightarrow> length (queue p) = 1"
  by (cases "queue p") (auto simp: playNext_def)

text \<open>
  Claim C2. In one play-run (two segments enqueued back to back, then both completing) the
  "playback started" callback is called twice, not once: \<open>playNext\<close> calls it for every
  segment whose removal leaves the queue empty. "Playback ended" is called once.
\<close>

theorem playback_started_fires_again:
  "snd (player_run new_AudioPlayer [Enqueue a, Enqueue b, Ended, Ended]) =
     [PlaybackStart, PlaybackStart, PlaybackEnd]"
  by (simp add: new_AudioPlayer_def enqueue_def playNext_def onended_def source_ended_def)

section \<open>Properties of the capture\<close>

lemma foldl_length_acc:
  "foldl (\<lambda>acc chunk. acc + length chunk) n buf = n + length (concat buf)"
  by (induction buf arbitrary: n) simp_all

lemma merge_loop_concat:
  "offset + length (concat buf) \<le> length merged \<Longrightarrow>
   merge_loop buf merged offset =
     take offset merged @ concat buf @ drop (offset + length (concat buf)) merged"
proof (induction buf arbitrary: merged offset)
  case Nil
  then show ?case by simp
next
  case (Cons chunk rest)
  let ?m = "set_at merged chunk offset"
  from Cons.prems have len: "length ?m = length merged"
    by (simp add: set_at_def)
  from Cons.prems have "offset + length chunk + length (concat rest) \<le> length ?m"
    by (simp add: len)
  then have "merge_loop rest ?m (offset + length chunk) =
      take (offset + length chunk) ?m @ concat rest
        @ drop (offset + length chunk + length (concat rest)) ?m"
    by (rule Cons.IH)
  moreover from Cons.prems have "take (offset + length chunk) ?m = take offset merged @ chunk"
    by (simp add: set_at_def)
  moreover from Cons.prems
  have "drop (offset + length chunk + length (concat rest)) ?m =
      drop (offset + length chunk + length (concat rest)) merged"
    by (simp add: set_at_def ac_simps)
  ultimately show ?case by (simp add: add.assoc)
qed

lemma merge_chunks_concat: "merge_chunks buf = concat buf"
  by (simp add: merge_chunks_def foldl_length_acc merge_loop_concat)

lemma capture_run_append:
  "capture_run silent m (xs @ ys) =
     (let (m1, out1) = capture_run silent m xs; (m2, out2) = capture_run silent m1 ys
      in (m2, out1 @ out2))"
  by (induction xs arbitrary: m) (simp_all add: split_def Let_def)

lemma quiet_run:
  assumes "isRecording m" and "silenceTimer m \<noteq> None"
    and "\<forall>h. Timeout h \<in> set es \<longrightarrow> h \<notin> set (timeouts m)"
    and "\<forall>e\<in>set es. quiet_event silent e"
  shows "capture_run silent m es =
     (m\<lparr>audioBuffer := audioBuffer m @ concat (map chunk_of es)\<rparr>, concat (map chunk_signal es))"
  using assms
proof (induction es arbitrary: m)
  case Nil
  then show ?case by simp
next
  case (Cons e es)
  show ?case
  proof (cases e)
    case (AudioProcess chunk timestamp)
    let ?m1 = "m\<lparr>audioBuffer := audioBuffer m @ [chunk]\<rparr>"
    from Cons.prems AudioProcess have st: "capture_step silent m e = (?m1, [AudioChunk chunk timestamp])"
      by (auto simp: onaudioprocess_def Let_def)
    have "capture_run silent ?m1 es =
       (?m1\<lparr>audioBuffer := audioBuffer ?m1 @ concat (map chunk_of es)\<rparr>, concat (map chunk_signal es))"
      using Cons.prems by (intro Cons.IH) simp_all
    with st AudioProcess show ?thesis by simp
  next
    case (Timeout h)
    from Cons.prems Timeout have st: "capture_step silent m e = (m, [])"
      by (simp add: silence_timeout_def)
    have "capture_run silent m es =
       (m\<lparr>audioBuffer := audioBuffer m @ concat (map chunk_of es)\<rparr>, concat (map chunk_signal es))"
      using Cons.prems by (intro Cons.IH) simp_all
    with st Timeout show ?thesis by simp
  qed
qed

lemma silent_chunks_run:
  assumes "isRecording m" and "silenceTimer m = None" and "timeouts m = []"
    and "cs \<noteq> []" and "\<forall>c\<in>set cs. silent (fst c)"
  shows "capture_run silent m (map (\<lambda>(c, t). AudioProcess c t) cs) =
     (m\<lparr>silenceTimer := Some (nextHandle m), audioBuffer := audioBuffer m @ map fst cs,
        timeouts := [nextHandle m], nextHandle := Suc (nextHandle m)\<rparr>,
      map (\<lambda>(c, t). AudioChunk c t) cs)"
proof (cases cs)
  case Nil
  with assms show ?thesis by simp
next
  case (Cons ct rest)
  obtain c t where ct: "ct = (c, t)" by (cases ct)
  let ?m1 = "m\<lparr>silenceTimer := Some (nextHandle m), audioBuffer := audioBuffer m @ [c],
        timeouts := [nextHandle m], nextHandle := Suc (nextHandle m)\<rparr>"
  let ?es = "map (\<lambda>(c, t). AudioProcess c t) rest"
  from assms Cons ct have st: "capture_step silent m (AudioProcess c t) = (?m1, [AudioChunk c t])"
    by (simp add: onaudioprocess_def Let_def setTimeout_flush_def)
  have q: "\<forall>e\<in>set ?es. quiet_event silent e"
    using assms(5) Cons by auto
  have "capture_run silent ?m1 ?es =
      (?m1\<lparr>audioBuffer := audioBuffer ?m1 @ concat (map chunk_of ?es)\<rparr>,
       concat (map chunk_signal ?es))"
    using assms(1) q by (intro quiet_run) auto
  moreover have "concat (map chunk_of ?es) = map fst rest"
    by (induction rest) auto
  moreover have "concat (map chunk_signal ?es) = map (\<lambda>(c, t). AudioChunk c t) rest"
    by (induction rest) auto
  ultimately show ?thesis using st Cons ct by simp
qed

lemma timer_inv_new: "timer_inv new_MicrophoneCapture"
  by (simp add: timer_inv_def new_MicrophoneCapture_def)

lemma timer_inv_step: "timer_inv m \<Longrightarrow> timer_inv (fst (capture_step silent m e))"
  by (cases e)
    (auto simp: timer_inv_def onaudioprocess_def silence_timeout_def flushBuffer_def
      setTimeout_flush_def clearTimeout_silence_def Let_def split: option.splits if_splits)

lemma timer_inv_stop:
  "timer_inv m \<Longrightarrow> timeouts (fst (MicrophoneCapture_stop m)) = []"
  by (auto simp: timer_inv_def MicrophoneCapture_stop_def flushBuffer_def
      clearTimeout_silence_def split_def split: option.splits if_splits)

lemma loud_chunk_clears:
  assumes "isRecording m" and "\<not> silent c" and "timer_inv m"
  shows "silenceTimer (fst (onaudioprocess silent m c t)) = None"
    and "timeouts (fst (onaudioprocess silent m c t)) = []"
  using assms
  by (auto simp: onaudioprocess_def clearTimeout_silence_def timer_inv_def Let_def
      split: option.splits)

lemma silence_flush_run:
  assumes "isRecording m" and "silenceTimer m = None" and "timeouts m = []"
    and "cs \<noteq> []" and "\<forall>c\<in>set cs. silent (fst c)"
    and "\<forall>e\<in>set es. quiet_event silent e"
  shows "capture_run silent m (map (\<lambda>(c, t). AudioProcess c t) cs @ Timeout (nextHandle m) # es) =
     (m\<lparr>silenceTimer := Some (nextHandle m), audioBuffer := concat (map chunk_of es),
        nextHandle := Suc (nextHandle m)\<rparr>,
      map (\<lambda>(c, t). AudioChunk c t) cs
        @ Silence (concat (audioBuffer m @ map fst cs)) # concat (map chunk_signal es))"
proof -
  define m1 where "m1 = m\<lparr>silenceTimer := Some (nextHandle m),
        audioBuffer := audioBuffer m @ map fst cs,
        timeouts := [nextHandle m], nextHandle := Suc (nextHandle m)\<rparr>"
  define m2 where "m2 = m1\<lparr>timeouts := [], audioBuffer := []\<rparr>"
  define m3 where "m3 = m2\<lparr>audioBuffer := audioBuffer m2 @ concat (map chunk_of es)\<rparr>"
  have r1: "capture_run silent m (map (\<lambda>(c, t). AudioProcess c t) cs) =
      (m1, map (\<lambda>(c, t). AudioChunk c t) cs)"
    unfolding m1_def using assms(1-5) by (rule silent_chunks_run)
  have r2: "silence_timeout m1 (nextHandle m) =
      (m2, [Silence (concat (audioBuffer m @ map fst cs))])"
    using assms(4)
    by (simp add: m1_def m2_def silence_timeout_def flushBuffer_def merge_chunks_concat)
  have r3: "capture_run silent m2 es = (m3, concat (map chunk_signal es))"
    unfolding m3_def using assms(1,6) by (intro quiet_run) (simp_all add: m1_def m2_def)
  have m3: "m3 = m\<lparr>silenceTimer := Some (nextHandle m), audioBuffer := concat (map chunk_of es),
        nextHandle := Suc (nextHandle m)\<rparr>"
    using assms(3) by (simp add: m1_def m2_def m3_def)
  show ?thesis
    unfolding m3 [symmetric] by (simp add: capture_run_append r1 r2 r3)
qed

lemma no_Silence_chunks: "filter is_Silence (map (\<lambda>(c, t). AudioChunk c t) cs) = []"
  by (induction cs) auto

lemma no_Silence_chunk_signal: "filter is_Silence (concat (map chunk_signal es)) = []"
proof (induction es)
  case Nil
  show ?case by simp
next
  case (Cons e es)
  then show ?case by (cases e) simp_all
qed

text \<open>
  Claim C8. Capture is recording and holds no timer handle (the state at its start and
  after every chunk above the threshold). Chunks \<open>cs\<close> below the threshold arrive, at
  least one; the debounce timeout armed by the first of them elapses; then further events
  \<open>es\<close> follow, each a chunk below the threshold or the elapsing of some timeout. The run
  delivers exactly one segment, at the elapsing of the debounce: the concatenation, in
  capture order, of the chunks buffered before the run and of \<open>cs\<close>. The buffer is reset
  there: at the end it holds the chunks of \<open>es\<close> only. A flush of an empty buffer delivers
  nothing and changes nothing.
\<close>

theorem silence_flush:
  assumes "isRecording m" and "silenceTimer m = None" and "timeouts m = []"
    and "cs \<noteq> []" and "\<forall>c\<in>set cs. silent (fst c)"
    and "\<forall>e\<in>set es. quiet_event silent e"
  shows "capture_run silent m (map (\<lambda>(c, t). AudioProcess c t) cs @ Timeout (nextHandle m) # es) =
     (m\<lparr>silenceTimer := Some (nextHandle m), audioBuffer := concat (map chunk_of es),
        nextHandle := Suc (nextHandle m)\<rparr>,
      map (\<lambda>(c, t). AudioChunk c t) cs
        @ Silence (concat (audioBuffer m @ map fst cs)) # concat (map chunk_signal es))
    \<and> filter is_Silence
        (snd (capture_run silent m
           (map (\<lambda>(c, t). AudioProcess c t) cs @ Timeout (nextHandle m) # es))) =
       [Silence (concat (audioBuffer m @ map fst cs))]
    \<and> flushBuffer (m\<lparr>audioBuffer := []\<rparr>) = (m\<lparr>audioBuffer := []\<rparr>, [])"
proof (intro conjI)
  note r = silence_flush_run [OF assms]
  show "capture_run silent m (map (\<lambda>(c, t). AudioProcess c t) cs @ Timeout (nextHandle m) # es) =
     (m\<lparr>silenceTimer := Some (nextHandle m), audioBuffer := concat (map chunk_of es),
        nextHandle := Suc (nextHandle m)\<rparr>,
      map (\<lambda>(c, t). AudioChunk c t) cs
        @ Silence (concat (audioBuffer m @ map fst cs)) # concat (map chunk_signal es))"
    by (rule r)
  show "filter is_Silence
        (snd (capture_run silent m
           (map (\<lambda>(c, t). AudioProcess c t) cs @ Timeout (nextHandle m) # es))) =
       [Silence (concat (audioBuffer m @ map fst cs))]"
    unfolding r by (simp add: no_Silence_chunks no_Silence_chunk_signal)
  show "flushBuffer (m\<lparr>audioBuffer := []\<rparr>) = (m\<lparr>audioBuffer := []\<rparr>, [])"
    by (simp add: flushBuffer_def)
qed

theorem silence_flush_witness:
  "(let m = new_MicrophoneCapture\<lparr>mediaStream := True, isRecording := True\<rparr>;
        silent = (\<lambda>c. c = [Finite 0]);
        cs = [([Finite 0], 10), ([Finite 0], 20)];
        es = [AudioProcess [Finite 0] 30, Timeout 1]
    in isRecording m \<and> silenceTimer m = None \<and> timeouts m = [] \<and> cs \<noteq> []
       \<and> (\<forall>c\<in>set cs. silent (fst c)) \<and> (\<forall>e\<in>set es. quiet_event silent e)
       \<and> snd (capture_run silent m
                (map (\<lambda>(c, t). AudioProcess c t) cs @ Timeout (nextHandle m) # es)) =
           [AudioChunk [Finite 0] 10, AudioChunk [Finite 0] 20, Silence [Finite 0, Finite 0],
            AudioChunk [Finite 0] 30]
       \<and> audioBuffer (fst (capture_run silent m
                (map (\<lambda>(c, t). AudioProcess c t) cs @ Timeout (nextHandle m) # es))) = [[Finite 0]])"
  using silence_flush [of "new_MicrophoneCapture\<lparr>mediaStream := True, isRecording := True\<rparr>"
      "[([Finite 0], 10), ([Finite 0], 20)]" "\<lambda>c. c = [Finite 0]"
      "[AudioProcess [Finite 0] 30, Timeout 1]"]
  by (simp add: new_MicrophoneCapture_def)

section \<open>Properties of the session\<close>

lemma run_Nil [simp]: "run silent s [] = s"
  by (simp add: run_def)

lemma run_Cons [simp]: "run silent s (e # es) = run silent (step silent s e) es"
  by (simp add: run_def)

lemma run_append: "run silent s (xs @ ys) = run silent (run silent s xs) ys"
  by (simp add: run_def)

lemma nth_opt_snoc: "nth_opt (xs @ [x]) (length xs) = Some x"
  by (simp add: nth_opt_def)

lemma state_emit [simp]: "state (emit s e) = state s"
  by (simp add: emit_def)

lemma state_call_onError [simp]: "state (call_onError s message) = state s"
  by (simp add: call_onError_def)

lemma state_setState [simp]: "state (setState s st) = st"
  by (simp add: setState_def)

lemma state_sendJSON [simp]: "state (sendJSON s t) = state s"
  by (simp add: sendJSON_def)

lemma setState_keeps [simp]:
  "sockets (setState s st) = sockets s"
  "ws (setState s st) = ws s"
  "microphones (setState s st) = microphones s"
  "microphone (setState s st) = microphone s"
  "reconnectTimers (setState s st) = reconnectTimers s"
  "reconnectAttempts (setState s st) = reconnectAttempts s"
  "pingInterval (setState s st) = pingInterval s"
  "intervals (setState s st) = intervals s"
  by (simp_all add: setState_def emit_def)

lemma on_mic_signal_keeps [simp]:
  "sockets (on_mic_signal s x) = sockets s"
  "ws (on_mic_signal s x) = ws s"
  "microphones (on_mic_signal s x) = microphones s"
  "microphone (on_mic_signal s x) = microphone s"
  "reconnectTimers (on_mic_signal s x) = reconnectTimers s"
  "reconnectAttempts (on_mic_signal s x) = reconnectAttempts s"
  "pingInterval (on_mic_signal s x) = pingInterval s"
  "intervals (on_mic_signal s x) = intervals s"
  by (cases x; simp add: sendJSON_def sendBinary_def emit_def)+

lemma mic_signals_keeps [simp]:
  "sockets (foldl on_mic_signal s out) = sockets s"
  "ws (foldl on_mic_signal s out) = ws s"
  "microphones (foldl on_mic_signal s out) = microphones s"
  "microphone (foldl on_mic_signal s out) = microphone s"
  "reconnectTimers (foldl on_mic_signal s out) = reconnectTimers s"
  "reconnectAttempts (foldl on_mic_signal s out) = reconnectAttempts s"
  "pingInterval (foldl on_mic_signal s out) = pingInterval s"
  "intervals (foldl on_mic_signal s out) = intervals s"
  by (induction out arbitrary: s) simp_all

text \<open>The state the session is in once the microphone has been stopped.\<close>

lemma stopListening_unfold:
  "stopListening s =
     (let s1 = (case microphone s of
                  None \<Rightarrow> s
                | Some i \<Rightarrow>
                    (case nth_opt (microphones s) i of
                       None \<Rightarrow> s
                     | Some m \<Rightarrow>
                         foldl on_mic_signal
                           (s\<lparr>microphones := (microphones s)[i := fst (MicrophoneCapture_stop m)]\<rparr>)
                           (snd (MicrophoneCapture_stop m))));
          s2 = s1\<lparr>microphone := None\<rparr>
      in if state s1 = listening then setState s2 idle else s2)"
  by (simp add: stopListening_def split_def Let_def split: option.splits)

lemma stopListening_keeps [simp]:
  "sockets (stopListening s) = sockets s"
  "ws (stopListening s) = ws s"
  "reconnectTimers (stopListening s) = reconnectTimers s"
  "reconnectAttempts (stopListening s) = reconnectAttempts s"
  "pingInterval (stopListening s) = pingInterval s"
  "intervals (stopListening s) = intervals s"
  "microphone (stopListening s) = None"
  by (simp_all add: stopListening_unfold Let_def split: option.splits)

lemma stopListening_microphone:
  assumes "microphone s = Some j" and "nth_opt (microphones s) j = Some m"
  shows "nth_opt (microphones (stopListening s)) j = Some (fst (MicrophoneCapture_stop m))"
  using assms
  by (simp add: stopListening_unfold Let_def) (simp add: nth_opt_def split: if_splits)

lemma MicrophoneCapture_stop_stopped:
  "\<not> isRecording (fst (MicrophoneCapture_stop m))"
  "silenceTimer (fst (MicrophoneCapture_stop m)) = None"
  "audioBuffer (fst (MicrophoneCapture_stop m)) = []"
  "\<not> mediaStream (fst (MicrophoneCapture_stop m))"
  by (simp_all add: MicrophoneCapture_stop_def flushBuffer_def clearTimeout_silence_def
      split_def split: option.splits)

lemma MicrophoneCapture_stop_signals:
  "snd (MicrophoneCapture_stop m) =
     (if audioBuffer m = [] then [] else [Silence (merge_chunks (audioBuffer m))])"
  by (simp add: MicrophoneCapture_stop_def flushBuffer_def clearTimeout_silence_def
      split_def split: option.splits)

lemma stopListening_flush_state:
  assumes "microphone s = Some j" and "nth_opt (microphones s) j = Some m"
    and "audioBuffer m \<noteq> []"
  shows "state (stopListening s) = processing"
  using assms by (simp add: stopListening_unfold Let_def MicrophoneCapture_stop_signals)

lemma stopPing_keeps [simp]:
  "sockets (stopPing s) = sockets s"
  "ws (stopPing s) = ws s"
  "microphones (stopPing s) = microphones s"
  "microphone (stopPing s) = microphone s"
  "reconnectTimers (stopPing s) = reconnectTimers s"
  "reconnectAttempts (stopPing s) = reconnectAttempts s"
  "effects (stopPing s) = effects s"
  "pingInterval (stopPing s) = None"
  by (simp_all add: stopPing_def split: option.splits)

lemma disconnect_unfold:
  "disconnect s =
     (let s1 = stopListening (stopPing s)
      in (case ws s of
            None \<Rightarrow> s1
          | Some i \<Rightarrow>
              (case nth_opt (sockets s) i of
                 None \<Rightarrow> s1
               | Some r \<Rightarrow> s1\<lparr>sockets := (sockets s)[i := WebSocket_close r]\<rparr>))\<lparr>ws := None\<rparr>)"
  by (simp add: disconnect_def Let_def split: option.splits)

lemma disconnect_keeps:
  "pingInterval (disconnect s) = None"
  "microphone (disconnect s) = None"
  "ws (disconnect s) = None"
  "reconnectTimers (disconnect s) = reconnectTimers s"
  "reconnectAttempts (disconnect s) = reconnectAttempts s"
  by (simp_all add: disconnect_unfold Let_def split: option.splits)

lemma disconnect_socket:
  assumes "ws s = Some i" and "nth_opt (sockets s) i = Some r"
  shows "sockets (disconnect s) = (sockets s)[i := WebSocket_close r]"
  using assms by (simp add: disconnect_unfold Let_def)

lemma disconnect_microphone:
  assumes "microphone s = Some j" and "nth_opt (microphones s) j = Some m"
  shows "nth_opt (microphones (disconnect s)) j = Some (fst (MicrophoneCapture_stop m))"
proof -
  have "microphones (disconnect s) = microphones (stopListening (stopPing s))"
    by (simp add: disconnect_unfold Let_def split: option.splits)
  moreover have "nth_opt (microphones (stopListening (stopPing s))) j =
      Some (fst (MicrophoneCapture_stop m))"
    using assms by (intro stopListening_microphone) simp_all
  ultimately show ?thesis by simp
qed

lemma connected_run:
  "run silent new_VoiceAgentWebSocket [Connect, Open 0] =
     \<lparr>sockets = [OPEN], ws = Some 0, microphones = [], microphone = None,
      audioPlayer = new_AudioPlayer, sessionId = None, reconnectAttempts = 0,
      pingInterval = Some 1, state = idle, intervals = [1], reconnectTimers = [],
      nextTimer = 2, effects = [new_WebSocket, onConnected], onError_given = True\<rparr>"
  by (simp add: new_VoiceAgentWebSocket_def connect_def onopen_def startPing_def
      emit_def nth_opt_def)

lemma listening_run:
  "run silent new_VoiceAgentWebSocket [Connect, Open 0, StartListening Granted] =
     \<lparr>sockets = [OPEN], ws = Some 0,
      microphones = [new_MicrophoneCapture\<lparr>mediaStream := True, isRecording := True\<rparr>],
      microphone = Some 0,
      audioPlayer = new_AudioPlayer, sessionId = None, reconnectAttempts = 0,
      pingInterval = Some 1, state = listening, intervals = [1], reconnectTimers = [],
      nextTimer = 2,
      effects = [new_WebSocket, onConnected, onStateChange listening, send_json ''session_start''],
      onError_given = True\<rparr>"
proof -
  have "run silent new_VoiceAgentWebSocket [Connect, Open 0, StartListening Granted] =
      fst (startListening (run silent new_VoiceAgentWebSocket [Connect, Open 0]) Granted)"
    by (simp del: step.simps(1,2))
  then show ?thesis
    unfolding connected_run
    by (simp add: startListening_def MicrophoneCapture_start_def new_MicrophoneCapture_def
        AudioPlayer_stop_def new_AudioPlayer_def setState_def sendJSON_def ws_readyState_def
        nth_opt_def emit_def)
qed

lemma connected_facts:
  "ws (run silent new_VoiceAgentWebSocket [Connect, Open 0]) = Some 0"
  "nth_opt (sockets (run silent new_VoiceAgentWebSocket [Connect, Open 0])) 0 = Some OPEN"
  "reconnectAttempts (run silent new_VoiceAgentWebSocket [Connect, Open 0]) = 0"
  "reconnectTimers (run silent new_VoiceAgentWebSocket [Connect, Open 0]) = []"
  "length (sockets (run silent new_VoiceAgentWebSocket [Connect, Open 0])) = 1"
  "state (run silent new_VoiceAgentWebSocket [Connect, Open 0]) = idle"
  unfolding connected_run by (simp_all add: nth_opt_def)

lemma listening_facts:
  "ws (run silent new_VoiceAgentWebSocket [Connect, Open 0, StartListening Granted]) = Some 0"
  "nth_opt (sockets (run silent new_VoiceAgentWebSocket [Connect, Open 0, StartListening Granted])) 0
     = Some OPEN"
  "reconnectAttempts (run silent new_VoiceAgentWebSocket [Connect, Open 0, StartListening Granted])
     = 0"
  "reconnectTimers (run silent new_VoiceAgentWebSocket [Connect, Open 0, StartListening Granted])
     = []"
  "microphone (run silent new_VoiceAgentWebSocket [Connect, Open 0, StartListening Granted])
     = Some 0"
  "nth_opt (microphones (run silent new_VoiceAgentWebSocket [Connect, Open 0, StartListening Granted])) 0
     = Some (new_MicrophoneCapture\<lparr>mediaStream := True, isRecording := True\<rparr>)"
  unfolding listening_run by (simp_all add: nth_opt_def)

subsection \<open>Inbound audio\<close>

lemma length_int16_pairs: "length (int16_pairs data) = length data div 2"
  by (induction data rule: int16_pairs.induct) simp_all

lemma queueAudio_accepts:
  assumes "even (length data)" and "data \<noteq> []" and "8000 \<le> r" and "r \<le> 96000"
  shows "queueAudio p data (Some r) =
      Inr (enqueue p \<lparr>channelData = decode_int16 (int16_pairs data), sampleRate = r\<rparr>)"
proof -
  from assms(2) have "length data \<noteq> 0" by simp
  with assms(1) have "0 < length data div 2" by presburger
  with assms show ?thesis
    by (simp add: queueAudio_def Int16Array_def createBuffer_def decode_int16_def
        length_int16_pairs)
qed

lemma queueAudio_default:
  "queueAudio p data None = queueAudio p data (Some 22050)"
  by (simp add: queueAudio_def)

lemma queueAudio_rejects:
  assumes "odd (length data) \<or> data = []"
  shows "\<exists>e. queueAudio p data rate = Inl e"
  using assms
  by (auto simp: queueAudio_def Int16Array_def createBuffer_def decode_int16_def Let_def)

lemma segments_enqueue:
  "segments (fst (enqueue p b)) \<noteq> [] \<and> last (segments (fst (enqueue p b))) = b"
  by (cases "queue p") (simp_all add: enqueue_def playNext_def segments_def Let_def)

lemma audioPlayer_setState [simp]: "audioPlayer (setState s st) = audioPlayer s"
  by (simp add: setState_def emit_def)

lemma audioPlayer_player_signals [simp]:
  "audioPlayer (foldl on_player_signal s out) = audioPlayer s"
proof (induction out arbitrary: s)
  case Nil
  show ?case by simp
next
  case (Cons x out)
  then show ?case by (cases x) simp_all
qed

lemma binary_frame_player:
  assumes "even (length data)" and "data \<noteq> []"
  shows "audioPlayer (handleMessage s (Binary data)) =
     fst (enqueue (audioPlayer s)
            \<lparr>channelData = decode_int16 (int16_pairs data), sampleRate = 22050\<rparr>)"
  using assms
  by (simp add: handleAudioChunk_def session_queueAudio_def queueAudio_default
      queueAudio_accepts split_def)

lemma response_audio_player:
  assumes "even (length data)" and "data \<noteq> []" and "8000 \<le> r" and "r \<le> 96000"
  shows "audioPlayer (handleMessage s (Text (Some (response_audio (Some (data, Some r)))))) =
     fst (enqueue (audioPlayer s)
            \<lparr>channelData = decode_int16 (int16_pairs data), sampleRate = r\<rparr>)"
  using assms by (simp add: session_queueAudio_def queueAudio_accepts split_def)

lemma enqueue_signals:
  "snd (enqueue p b) = (if \<not> isPlaying p \<and> queue p = [] then [PlaybackStart] else [])"
  by (cases "queue p") (simp_all add: enqueue_def playNext_def Let_def)

lemma queueAudio_queueable:
  assumes "queueable data rate"
  shows "queueAudio p data rate =
      Inr (enqueue p \<lparr>channelData = decode_int16 (int16_pairs data),
                      sampleRate = (case rate of None \<Rightarrow> 22050 | Some r \<Rightarrow> r)\<rparr>)"
proof (cases rate)
  case None
  with assms show ?thesis
    by (simp add: queueable_def queueAudio_default queueAudio_accepts)
next
  case (Some r)
  with assms show ?thesis
    by (simp add: queueable_def queueAudio_accepts)
qed

lemma queueAudio_not_queueable:
  assumes "\<not> queueable data rate"
  shows "\<exists>e. queueAudio p data rate = Inl e"
proof -
  have "length data div 2 = 0 \<longleftrightarrow> length data < 2" by auto
  with assms show ?thesis
    by (cases rate)
      (auto simp: queueable_def queueAudio_def Int16Array_def createBuffer_def decode_int16_def
        length_int16_pairs Let_def)
qed

lemma state_session_queueAudio:
  "state (session_queueAudio s data rate) =
     (if queueable data rate \<and> \<not> isPlaying (audioPlayer s) \<and> queue (audioPlayer s) = []
      then speaking else state s)"
proof (cases "queueable data rate")
  case True
  let ?b = "\<lparr>channelData = decode_int16 (int16_pairs data),
             sampleRate = (case rate of None \<Rightarrow> 22050 | Some r \<Rightarrow> r)\<rparr>"
  have "session_queueAudio s data rate =
      foldl on_player_signal (s\<lparr>audioPlayer := fst (enqueue (audioPlayer s) ?b)\<rparr>)
        (snd (enqueue (audioPlayer s) ?b))"
    by (simp add: session_queueAudio_def queueAudio_queueable [OF True] split_def)
  then show ?thesis using True by (simp add: enqueue_signals)
next
  case False
  then obtain e where "queueAudio (audioPlayer s) data rate = Inl e"
    using queueAudio_not_queueable by blast
  with False show ?thesis by (simp add: session_queueAudio_def)
qed

text \<open>
  Claim C9, as the code has it. A binary frame with an even, non-zero number of bytes is
  decoded and appended to the playback queue at 22050 Hz in every session state, hence
  whatever sample rate a control message has stated before it: the new segment is the
  last one the player holds. A frame with an odd number of bytes, or with none, is
  rejected by the decoding and leaves the session as it was.
\<close>

theorem binary_frame_rate:
  "(even (length data) \<and> data \<noteq> [] \<longrightarrow>
      segments (audioPlayer (handleMessage s (Binary data))) \<noteq> []
      \<and> last (segments (audioPlayer (handleMessage s (Binary data)))) =
          \<lparr>channelData = decode_int16 (int16_pairs data), sampleRate = 22050\<rparr>)
   \<and> (odd (length data) \<or> data = [] \<longrightarrow> handleMessage s (Binary data) = s)"
proof (intro conjI impI)
  assume ok: "even (length data) \<and> data \<noteq> []"
  let ?b = "\<lparr>channelData = decode_int16 (int16_pairs data), sampleRate = 22050\<rparr>"
  from ok have p: "audioPlayer (handleMessage s (Binary data)) = fst (enqueue (audioPlayer s) ?b)"
    using binary_frame_player [of data s] by blast
  show "segments (audioPlayer (handleMessage s (Binary data))) \<noteq> []"
    unfolding p using segments_enqueue by blast
  show "last (segments (audioPlayer (handleMessage s (Binary data)))) = ?b"
    unfolding p using segments_enqueue by blast
next
  assume "odd (length data) \<or> data = []"
  then obtain e where "queueAudio (audioPlayer s) data None = Inl e"
    using queueAudio_rejects by blast
  then show "handleMessage s (Binary data) = s"
    by (simp add: handleAudioChunk_def session_queueAudio_def)
qed

text \<open>The theorem at a frame of two bytes and at a frame of one byte.\<close>

theorem binary_frame_rate_witness:
  "even (length [0, 64 :: byte]) \<and> [0, 64 :: byte] \<noteq> []
   \<and> sampleRate (last (segments (audioPlayer (handleMessage new_VoiceAgentWebSocket (Binary [0, 64]))))) = 22050
   \<and> odd (length [7 :: byte])
   \<and> handleMessage new_VoiceAgentWebSocket (Binary [7]) = new_VoiceAgentWebSocket"
proof -
  have a: "even (length [0, 64 :: byte]) \<and> [0, 64 :: byte] \<noteq> []" by simp
  have b: "odd (length [7 :: byte]) \<or> [7 :: byte] = []" by simp
  from a binary_frame_rate [of "[0, 64]" new_VoiceAgentWebSocket]
  have "sampleRate (last (segments (audioPlayer (handleMessage new_VoiceAgentWebSocket (Binary [0, 64]))))) = 22050"
    by simp
  moreover from b binary_frame_rate [of "[7]" new_VoiceAgentWebSocket]
  have "handleMessage new_VoiceAgentWebSocket (Binary [7]) = new_VoiceAgentWebSocket"
    by blast
  moreover have "odd (length [7 :: byte])" by simp
  ultimately show ?thesis using a by blast
qed

text \<open>
  Claim C9 as stated fails: after a \<open>response_audio\<close> message that states 16000 Hz, a
  binary frame is still queued at 22050 Hz; and a frame of three bytes is not queued.
\<close>

theorem binary_frame_rate_counterexample:
  "map sampleRate (segments (audioPlayer
      (handleMessage
         (handleMessage new_VoiceAgentWebSocket
            (Text (Some (response_audio (Some ([0, 64], Some 16000))))))
         (Binary [0, 64])))) = [16000, 22050]
   \<and> handleMessage new_VoiceAgentWebSocket (Binary [0, 64, 0]) = new_VoiceAgentWebSocket"
proof
  let ?b = "\<lambda>r. \<lparr>channelData = decode_int16 (int16_pairs [0, 64]), sampleRate = r\<rparr>"
  let ?s1 = "handleMessage new_VoiceAgentWebSocket
            (Text (Some (response_audio (Some ([0, 64], Some 16000)))))"
  have p1: "audioPlayer ?s1 = fst (enqueue (audioPlayer new_VoiceAgentWebSocket) (?b 16000))"
    by (rule response_audio_player) simp_all
  have p2: "audioPlayer (handleMessage ?s1 (Binary [0, 64])) = fst (enqueue (audioPlayer ?s1) (?b 22050))"
    by (rule binary_frame_player) simp_all
  show "map sampleRate (segments (audioPlayer (handleMessage ?s1 (Binary [0, 64])))) = [16000, 22050]"
    unfolding p2 p1
    by (simp add: enqueue_def playNext_def new_AudioPlayer_def segments_def
        new_VoiceAgentWebSocket_def)
  have "queueAudio new_AudioPlayer [0, 64, 0] None = Inl RangeError"
    by (simp add: queueAudio_def Int16Array_def)
  then show "handleMessage new_VoiceAgentWebSocket (Binary [0, 64, 0]) = new_VoiceAgentWebSocket"
    by (simp add: handleAudioChunk_def session_queueAudio_def new_VoiceAgentWebSocket_def)
qed

subsection \<open>Conversation state\<close>

lemma handleJSON_state:
  "state (handleJSON s (transcript (Some (text, True)))) = processing"
  "state (handleJSON s (error (Some message))) = idle"
  "state (handleJSON s (session_start session_id)) = state s"
  "state (handleJSON s (transcript None)) = state s"
  "state (handleJSON s (transcript (Some (text, False)))) = state s"
  "state (handleJSON s (response_text reply)) = state s"
  "state (handleJSON s response_audio_end) = state s"
  "state (handleJSON s (error None)) = (if onError_given s then state s else idle)"
  "state (handleJSON s pong) = state s"
  "state (handleJSON s (other tag)) = state s"
proof -
  show "state (handleJSON s (session_start session_id)) = state s"
    by (cases session_id) simp_all
  show "state (handleJSON s (response_text reply)) = state s"
    by (cases reply) auto
qed simp_all

text \<open>
  Claim C1, as the code has it. The handlers set the state without testing the current
  one, and the state after every inbound message is as follows. A final transcript gives
  \<open>processing\<close>, a server error with a message gives \<open>idle\<close>, the playback-start
  callback gives \<open>speaking\<close> and the playback-end callback gives \<open>idle\<close>, from every
  state. Audio, as a binary frame or in a \<open>response_audio\<close> message, gives \<open>speaking\<close>
  when it is accepted while the player is idle with an empty queue, and keeps the state
  otherwise. An error without payload gives \<open>idle\<close> when no \<open>onError\<close> callback is
  given (with the callback, reading the payload throws) and keeps the state otherwise.
  Text that does not parse, \<open>session_start\<close>, a transcript that is not final or has no
  payload, \<open>response_text\<close>, \<open>response_audio\<close> without payload, \<open>response_audio_end\<close>,
  \<open>pong\<close> and every other message type keep the state.
\<close>

theorem unguarded_transitions:
  "state (handleMessage s (Text (Some (transcript (Some (text, True)))))) = processing
   \<and> state (handleMessage s (Text (Some (error (Some message))))) = idle
   \<and> state (on_player_signal s PlaybackStart) = speaking
   \<and> state (on_player_signal s PlaybackEnd) = idle
   \<and> state (handleMessage s (Binary data)) =
       (if queueable data None \<and> \<not> isPlaying (audioPlayer s) \<and> queue (audioPlayer s) = []
        then speaking else state s)
   \<and> state (handleMessage s (Text (Some (response_audio (Some (data, rate)))))) =
       (if queueable data rate \<and> \<not> isPlaying (audioPlayer s) \<and> queue (audioPlayer s) = []
        then speaking else state s)
   \<and> state (handleMessage s (Text (Some (response_audio None)))) = state s
   \<and> state (handleMessage s (Text None)) = state s
   \<and> state (handleMessage s (Text (Some (session_start session_id)))) = state s
   \<and> state (handleMessage s (Text (Some (transcript None)))) = state s
   \<and> state (handleMessage s (Text (Some (transcript (Some (text, False)))))) = state s
   \<and> state (handleMessage s (Text (Some (response_text reply)))) = state s
   \<and> state (handleMessage s (Text (Some response_audio_end))) = state s
   \<and> state (handleMessage s (Text (Some (error None)))) =
       (if onError_given s then state s else idle)
   \<and> state (handleMessage s (Text (Some pong))) = state s
   \<and> state (handleMessage s (Text (Some (other tag)))) = state s"
proof -
  have a: "state (handleMessage s (Binary data)) =
       (if queueable data None \<and> \<not> isPlaying (audioPlayer s) \<and> queue (audioPlayer s) = []
        then speaking else state s)"
    by (simp add: handleAudioChunk_def state_session_queueAudio)
  have b: "state (handleMessage s (Text (Some (response_audio (Some (data, rate)))))) =
       (if queueable data rate \<and> \<not> isPlaying (audioPlayer s) \<and> queue (audioPlayer s) = []
        then speaking else state s)"
    by (simp add: state_session_queueAudio)
  have c: "state (handleMessage s (Text (Some (response_audio None)))) = state s"
    by simp
  show ?thesis
    unfolding a b c by (simp add: handleJSON_state del: handleJSON.simps)
qed

text \<open>
  Claim C1 as stated fails: the pair (\<open>idle\<close>, final transcript) is not in the transition
  table, and a connected session that is \<open>idle\<close> moves to \<open>processing\<close> on it.
\<close>

theorem unguarded_transitions_counterexample:
  "state (run (\<lambda>c. False) new_VoiceAgentWebSocket [Connect, Open 0]) = idle
   \<and> state (run (\<lambda>c. False) new_VoiceAgentWebSocket
        [Connect, Open 0, Message 0 (Text (Some (transcript (Some (''hello'', True)))))]) =
       processing"
proof -
  define s where "s = run (\<lambda>c. False) new_VoiceAgentWebSocket [Connect, Open 0]"
  note f = connected_facts [of "\<lambda>c. False", folded s_def]
  have "run (\<lambda>c. False) new_VoiceAgentWebSocket
        [Connect, Open 0, Message 0 (Text (Some (transcript (Some (''hello'', True)))))] =
      step (\<lambda>c. False) s (Message 0 (Text (Some (transcript (Some (''hello'', True))))))"
    unfolding s_def by (simp del: step.simps)
  also have "\<dots> = handleJSON s (transcript (Some (''hello'', True)))"
    by (simp add: f del: handleJSON.simps)
  finally show ?thesis
    unfolding s_def [symmetric] by (simp add: f handleJSON_state del: handleJSON.simps)
qed

text \<open>
  The end of a source is handled whatever \<open>currentSource\<close> holds: with nothing left in
  the queue it reports the end of playback.
\<close>

lemma source_ended_idle:
  assumes "0 < live (audioPlayer s)" and "queue (audioPlayer s) = []"
  shows "state (step silent s SourceEnded) = idle"
  using assms
  by (simp add: with_player_def source_ended_def onended_def playNext_def)

subsection \<open>Stopping capture\<close>

text \<open>
  Claim C5, as the code has it. \<open>stopListening()\<close> stops the capture the session refers
  to (not recording, no timer handle, buffer empty, stream released) and drops the
  reference. The state afterwards is \<open>processing\<close> when that capture had chunks buffered:
  the final flush inside \<open>stop()\<close> runs the silence callback before the state is tested.
  Otherwise it is \<open>idle\<close> when the state was \<open>listening\<close>, and unchanged when it was not.
\<close>

theorem stopListening_state:
  "state (stopListening s) =
     (if pending_flush s then processing else if state s = listening then idle else state s)
   \<and> microphone (stopListening s) = None
   \<and> microphones (stopListening s) =
       (case microphone s of
          None \<Rightarrow> microphones s
        | Some i \<Rightarrow>
            (case nth_opt (microphones s) i of
               None \<Rightarrow> microphones s
             | Some m \<Rightarrow> (microphones s)[i := fst (MicrophoneCapture_stop m)]))
   \<and> \<not> isRecording (fst (MicrophoneCapture_stop m))
   \<and> silenceTimer (fst (MicrophoneCapture_stop m)) = None
   \<and> audioBuffer (fst (MicrophoneCapture_stop m)) = []
   \<and> \<not> mediaStream (fst (MicrophoneCapture_stop m))"
proof -
  have "state (stopListening s) =
     (if pending_flush s then processing else if state s = listening then idle else state s)"
    by (simp add: stopListening_unfold pending_flush_def Let_def MicrophoneCapture_stop_signals
        split: option.splits)
  moreover have "microphones (stopListening s) =
       (case microphone s of
          None \<Rightarrow> microphones s
        | Some i \<Rightarrow>
            (case nth_opt (microphones s) i of
               None \<Rightarrow> microphones s
             | Some m \<Rightarrow> (microphones s)[i := fst (MicrophoneCapture_stop m)]))"
    by (simp add: stopListening_unfold Let_def split: option.splits)
  ultimately show ?thesis
    by (simp add: MicrophoneCapture_stop_stopped)
qed

text \<open>
  Claim C5 as stated fails: a connected session starts listening and captures one chunk,
  so that the state is \<open>listening\<close> and the buffer is not empty; after \<open>stopListening()\<close>
  the state is \<open>processing\<close>, not \<open>idle\<close>.
\<close>

theorem stopListening_state_counterexample:
  "state (run (\<lambda>c. False) new_VoiceAgentWebSocket
       [Connect, Open 0, StartListening Granted, MicAudio 0 [Finite (1 / 2)] 7]) = listening
   \<and> state (run (\<lambda>c. False) new_VoiceAgentWebSocket
       [Connect, Open 0, StartListening Granted, MicAudio 0 [Finite (1 / 2)] 7, StopListening]) =
       processing"
proof -
  define s3 where "s3 = run (\<lambda>c. False) new_VoiceAgentWebSocket [Connect, Open 0, StartListening Granted]"
  define s4 where "s4 = step (\<lambda>c. False) s3 (MicAudio 0 [Finite (1 / 2)] 7)"
  have r4: "run (\<lambda>c. False) new_VoiceAgentWebSocket
       [Connect, Open 0, StartListening Granted, MicAudio 0 [Finite (1 / 2)] 7] = s4"
    unfolding s4_def s3_def by (simp del: step.simps)
  have r5: "run (\<lambda>c. False) new_VoiceAgentWebSocket
       [Connect, Open 0, StartListening Granted, MicAudio 0 [Finite (1 / 2)] 7, StopListening] =
       stopListening s4"
    unfolding s4_def s3_def by (simp del: step.simps(1-7,10))
  have mic: "onaudioprocess (\<lambda>c. False)
        (new_MicrophoneCapture\<lparr>mediaStream := True, isRecording := True\<rparr>) [Finite (1 / 2)] 7 =
      (new_MicrophoneCapture\<lparr>mediaStream := True, isRecording := True,
         audioBuffer := [[Finite (1 / 2)]]\<rparr>, [AudioChunk [Finite (1 / 2)] 7])"
    by (simp add: onaudioprocess_def new_MicrophoneCapture_def clearTimeout_silence_def)
  have s4: "state s4 = listening" "microphone s4 = Some 0"
    "nth_opt (microphones s4) 0 =
       Some (new_MicrophoneCapture\<lparr>mediaStream := True, isRecording := True,
         audioBuffer := [[Finite (1 / 2)]]\<rparr>)"
    unfolding s4_def s3_def listening_run
    by (simp_all add: with_microphone_def nth_opt_def mic sendBinary_def ws_readyState_def emit_def)
  have "state (stopListening s4) = processing"
    using s4(2,3) by (rule stopListening_flush_state) simp
  with s4(1) show ?thesis unfolding r4 r5 by simp
qed

subsection \<open>Reconnection\<close>

lemma onclose_fields:
  "sockets (onclose s) = sockets s"
  "reconnectAttempts s < MAX_RECONNECT_ATTEMPTS \<Longrightarrow>
     reconnectAttempts (onclose s) = Suc (reconnectAttempts s)"
  "reconnectAttempts s < MAX_RECONNECT_ATTEMPTS \<Longrightarrow>
     reconnectTimers (onclose s) = reconnectTimers s @ [RECONNECT_DELAY_MS]"
  "reconnectAttempts s < MAX_RECONNECT_ATTEMPTS \<Longrightarrow>
     effects (onclose s) = effects s @ [onDisconnected, setTimeout RECONNECT_DELAY_MS]"
  "MAX_RECONNECT_ATTEMPTS \<le> reconnectAttempts s \<Longrightarrow>
     reconnectAttempts (onclose s) = reconnectAttempts s"
  "MAX_RECONNECT_ATTEMPTS \<le> reconnectAttempts s \<Longrightarrow>
     reconnectTimers (onclose s) = reconnectTimers s"
  "MAX_RECONNECT_ATTEMPTS \<le> reconnectAttempts s \<Longrightarrow>
     effects (onclose s) = effects s @ [onDisconnected]"
  by (cases "pingInterval s";
      simp add: onclose_def attemptReconnect_def stopPing_def emit_def)+

lemma close_then_reconnect:
  assumes "nth_opt (sockets s) i \<in> {Some CONNECTING, Some OPEN, Some CLOSING}"
    and "reconnectAttempts s < MAX_RECONNECT_ATTEMPTS" and "reconnectTimers s = []"
  shows "sockets (run silent s [Close i, ReconnectTimeout]) = (sockets s)[i := CLOSED] @ [CONNECTING]"
    and "reconnectAttempts (run silent s [Close i, ReconnectTimeout]) = Suc (reconnectAttempts s)"
    and "reconnectTimers (run silent s [Close i, ReconnectTimeout]) = []"
    and "effects (run silent s [Close i, ReconnectTimeout]) =
           effects s @ [onDisconnected, setTimeout RECONNECT_DELAY_MS, new_WebSocket]"
proof -
  let ?c = "s\<lparr>sockets := (sockets s)[i := CLOSED]\<rparr>"
  from assms(1) have st: "step silent s (Close i) = onclose ?c" by simp
  have a: "reconnectAttempts ?c < MAX_RECONNECT_ATTEMPTS" "reconnectTimers ?c = []"
    using assms by simp_all
  have t: "reconnectTimers (onclose ?c) = [RECONNECT_DELAY_MS]"
    using onclose_fields(3) [OF a(1)] a(2) by simp
  have r: "run silent s [Close i, ReconnectTimeout] =
      connect ((onclose ?c)\<lparr>reconnectTimers := []\<rparr>)"
    by (simp add: st reconnect_timeout_def t del: step.simps(3))
  show "sockets (run silent s [Close i, ReconnectTimeout]) = (sockets s)[i := CLOSED] @ [CONNECTING]"
    unfolding r by (simp add: connect_def emit_def onclose_fields(1))
  show "reconnectAttempts (run silent s [Close i, ReconnectTimeout]) = Suc (reconnectAttempts s)"
    unfolding r using onclose_fields(2) [OF a(1)] by (simp add: connect_def emit_def)
  show "reconnectTimers (run silent s [Close i, ReconnectTimeout]) = []"
    unfolding r by (simp add: connect_def emit_def)
  show "effects (run silent s [Close i, ReconnectTimeout]) =
           effects s @ [onDisconnected, setTimeout RECONNECT_DELAY_MS, new_WebSocket]"
    unfolding r using onclose_fields(4) [OF a(1)] by (simp add: connect_def emit_def)
qed

lemma failing_closes_run:
  assumes "nth_opt (sockets s) i \<in> {Some CONNECTING, Some OPEN, Some CLOSING}"
    and "reconnectTimers s = []"
    and "reconnectAttempts s + k \<le> MAX_RECONNECT_ATTEMPTS"
  shows "effects (run silent s (failing_closes i (length (sockets s)) k)) =
           effects s @ concat (replicate k [onDisconnected, setTimeout RECONNECT_DELAY_MS, new_WebSocket])
       \<and> reconnectAttempts (run silent s (failing_closes i (length (sockets s)) k)) =
           reconnectAttempts s + k
       \<and> reconnectTimers (run silent s (failing_closes i (length (sockets s)) k)) = []
       \<and> length (sockets (run silent s (failing_closes i (length (sockets s)) k))) =
           length (sockets s) + k
       \<and> nth_opt (sockets (run silent s (failing_closes i (length (sockets s)) k)))
            (if k = 0 then i else length (sockets s) + k - 1)
           \<in> {Some CONNECTING, Some OPEN, Some CLOSING}"
  using assms
proof (induction k arbitrary: s i)
  case 0
  then show ?case by simp
next
  case (Suc k)
  let ?n = "length (sockets s)"
  define s1 where "s1 = run silent s [Close i, ReconnectTimeout]"
  from Suc.prems have lt: "reconnectAttempts s < MAX_RECONNECT_ATTEMPTS" by simp
  note c = close_then_reconnect [OF Suc.prems(1) lt Suc.prems(2), of silent, folded s1_def]
  have len: "length (sockets s1) = Suc ?n" by (simp add: c(1))
  have sock: "nth_opt (sockets s1) ?n \<in> {Some CONNECTING, Some OPEN, Some CLOSING}"
    unfolding c(1) using nth_opt_snoc [of "(sockets s)[i := CLOSED]" CONNECTING] by simp
  have att: "reconnectAttempts s1 + k \<le> MAX_RECONNECT_ATTEMPTS"
    using Suc.prems(3) by (simp add: c(2))
  have "run silent s (failing_closes i ?n (Suc k)) =
      run silent s1 (failing_closes ?n (Suc ?n) k)"
    unfolding s1_def by (simp del: step.simps)
  then have split: "run silent s (failing_closes i ?n (Suc k)) =
      run silent s1 (failing_closes ?n (length (sockets s1)) k)"
    by (simp only: len)
  let ?r = "run silent s1 (failing_closes ?n (length (sockets s1)) k)"
  note ih = Suc.IH [OF sock c(3) att]
  have idx: "(if k = 0 then ?n else length (sockets s1) + k - 1) = ?n + k"
    by (simp add: len)
  from ih have "effects ?r =
      effects s1 @ concat (replicate k [onDisconnected, setTimeout RECONNECT_DELAY_MS, new_WebSocket])"
    by blast
  then have 1: "effects ?r =
      effects s @ concat (replicate (Suc k) [onDisconnected, setTimeout RECONNECT_DELAY_MS, new_WebSocket])"
    by (simp add: c(4))
  from ih have "reconnectAttempts ?r = reconnectAttempts s1 + k" by blast
  then have 2: "reconnectAttempts ?r = reconnectAttempts s + Suc k" by (simp add: c(2))
  from ih have 3: "reconnectTimers ?r = []" by blast
  from ih have "length (sockets ?r) = length (sockets s1) + k" by blast
  then have 4: "length (sockets ?r) = ?n + Suc k" by (simp add: len)
  from ih have 5: "nth_opt (sockets ?r) (?n + k) \<in> {Some CONNECTING, Some OPEN, Some CLOSING}"
    unfolding idx by blast
  have idx': "(if Suc k = 0 then i else ?n + Suc k - 1) = ?n + k" by simp
  show ?case
    unfolding split idx' using 1 2 3 4 5 by blast
qed

lemma close_exhausted:
  assumes "nth_opt (sockets s) i \<in> {Some CONNECTING, Some OPEN, Some CLOSING}"
    and "MAX_RECONNECT_ATTEMPTS \<le> reconnectAttempts s"
  shows "effects (step silent s (Close i)) = effects s @ [onDisconnected]"
    and "reconnectTimers (step silent s (Close i)) = reconnectTimers s"
    and "reconnectAttempts (step silent s (Close i)) = reconnectAttempts s"
proof -
  let ?c = "s\<lparr>sockets := (sockets s)[i := CLOSED]\<rparr>"
  from assms(1) have st: "step silent s (Close i) = onclose ?c" by simp
  have a: "MAX_RECONNECT_ATTEMPTS \<le> reconnectAttempts ?c" using assms(2) by simp
  show "effects (step silent s (Close i)) = effects s @ [onDisconnected]"
    unfolding st using onclose_fields(7) [OF a] by simp
  show "reconnectTimers (step silent s (Close i)) = reconnectTimers s"
    unfolding st using onclose_fields(6) [OF a] by simp
  show "reconnectAttempts (step silent s (Close i)) = reconnectAttempts s"
    unfolding st using onclose_fields(5) [OF a] by simp
qed

text \<open>
  Claim C7. The reconnect counter is 0 and no reconnect timeout is pending. Socket \<open>i\<close>
  closes, and each of the sockets the reconnect attempts open (\<open>n\<close>, \<open>n + 1\<close>, ...)
  closes in turn without having opened. After the first five close events exactly five
  timeouts of \<open>RECONNECT_DELAY_MS\<close> have been armed, each followed by a new socket; the
  sixth close event only reports the disconnection and leaves no timeout pending.
\<close>

theorem reconnect_budget:
  assumes "reconnectAttempts s = 0" and "reconnectTimers s = []"
    and "nth_opt (sockets s) i \<in> {Some CONNECTING, Some OPEN, Some CLOSING}"
    and "n = length (sockets s)"
  shows "effects (run silent s
            [Close i, ReconnectTimeout, Close n, ReconnectTimeout, Close (n + 1), ReconnectTimeout,
             Close (n + 2), ReconnectTimeout, Close (n + 3), ReconnectTimeout]) =
           effects s @ concat (replicate 5 [onDisconnected, setTimeout RECONNECT_DELAY_MS, new_WebSocket])
       \<and> effects (run silent s
            [Close i, ReconnectTimeout, Close n, ReconnectTimeout, Close (n + 1), ReconnectTimeout,
             Close (n + 2), ReconnectTimeout, Close (n + 3), ReconnectTimeout, Close (n + 4)]) =
           effects s @ concat (replicate 5 [onDisconnected, setTimeout RECONNECT_DELAY_MS, new_WebSocket])
             @ [onDisconnected]
       \<and> reconnectTimers (run silent s
            [Close i, ReconnectTimeout, Close n, ReconnectTimeout, Close (n + 1), ReconnectTimeout,
             Close (n + 2), ReconnectTimeout, Close (n + 3), ReconnectTimeout, Close (n + 4)]) = []"
proof -
  let ?five = "[Close i, ReconnectTimeout, Close n, ReconnectTimeout, Close (n + 1), ReconnectTimeout,
             Close (n + 2), ReconnectTimeout, Close (n + 3), ReconnectTimeout]"
  have five: "?five = failing_closes i (length (sockets s)) 5"
    by (simp add: eval_nat_numeral assms(4))
  define s5 where "s5 = run silent s ?five"
  have budget: "reconnectAttempts s + 5 \<le> MAX_RECONNECT_ATTEMPTS"
    using assms(1) by (simp add: MAX_RECONNECT_ATTEMPTS_def)
  note r = failing_closes_run [OF assms(3) assms(2) budget, of silent, folded five, folded s5_def]
  from r have e5: "effects s5 =
      effects s @ concat (replicate 5 [onDisconnected, setTimeout RECONNECT_DELAY_MS, new_WebSocket])"
    by blast
  from r have t5: "reconnectTimers s5 = []" by blast
  from r assms(1) have a5: "MAX_RECONNECT_ATTEMPTS \<le> reconnectAttempts s5"
    by (simp add: MAX_RECONNECT_ATTEMPTS_def)
  from r have sock: "nth_opt (sockets s5) (n + 4) \<in> {Some CONNECTING, Some OPEN, Some CLOSING}"
    by (simp add: assms(4) add.commute)
  have six: "run silent s (?five @ [Close (n + 4)]) = step silent s5 (Close (n + 4))"
    unfolding run_append s5_def by (simp del: step.simps)
  have e6: "effects (run silent s (?five @ [Close (n + 4)])) = effects s5 @ [onDisconnected]"
    unfolding six by (rule close_exhausted(1) [OF sock a5])
  have t6: "reconnectTimers (run silent s (?five @ [Close (n + 4)])) = []"
    unfolding six using close_exhausted(2) [OF sock a5] t5 by simp
  from e5 e6 t6 show ?thesis unfolding s5_def by simp
qed

text \<open>The theorem at a session that has connected once.\<close>

theorem reconnect_budget_witness:
  "reconnectAttempts (run (\<lambda>c. False) new_VoiceAgentWebSocket [Connect, Open 0]) = 0
   \<and> reconnectTimers (run (\<lambda>c. False) new_VoiceAgentWebSocket [Connect, Open 0]) = []
   \<and> nth_opt (sockets (run (\<lambda>c. False) new_VoiceAgentWebSocket [Connect, Open 0])) 0
        \<in> {Some CONNECTING, Some OPEN, Some CLOSING}
   \<and> 1 = length (sockets (run (\<lambda>c. False) new_VoiceAgentWebSocket [Connect, Open 0]))
   \<and> effects (run (\<lambda>c. False) (run (\<lambda>c. False) new_VoiceAgentWebSocket [Connect, Open 0])
        [Close 0, ReconnectTimeout, Close 1, ReconnectTimeout, Close (1 + 1), ReconnectTimeout,
         Close (1 + 2), ReconnectTimeout, Close (1 + 3), ReconnectTimeout, Close (1 + 4)]) =
       effects (run (\<lambda>c. False) new_VoiceAgentWebSocket [Connect, Open 0])
         @ concat (replicate 5 [onDisconnected, setTimeout RECONNECT_DELAY_MS, new_WebSocket])
         @ [onDisconnected]
   \<and> reconnectTimers (run (\<lambda>c. False) (run (\<lambda>c. False) new_VoiceAgentWebSocket [Connect, Open 0])
        [Close 0, ReconnectTimeout, Close 1, ReconnectTimeout, Close (1 + 1), ReconnectTimeout,
         Close (1 + 2), ReconnectTimeout, Close (1 + 3), ReconnectTimeout, Close (1 + 4)]) = []"
proof -
  define s where "s = run (\<lambda>c. False) new_VoiceAgentWebSocket [Connect, Open 0]"
  note f = connected_facts [of "\<lambda>c. False", folded s_def]
  have sock: "nth_opt (sockets s) 0 \<in> {Some CONNECTING, Some OPEN, Some CLOSING}"
    by (simp add: f)
  have n: "1 = length (sockets s)" by (simp add: f)
  from reconnect_budget [OF f(3) f(4) sock n, of "\<lambda>c. False"] f(3) f(4) sock n
  show ?thesis
    unfolding s_def [symmetric] by blast
qed

subsection \<open>Disconnecting\<close>

lemma reconnect_timeout_sockets:
  "reconnectTimers s \<noteq> [] \<Longrightarrow> sockets (reconnect_timeout s) = sockets s @ [CONNECTING]"
  by (cases "reconnectTimers s") (simp_all add: reconnect_timeout_def connect_def emit_def)

lemma intervals_stopPing:
  "intervals (stopPing s) =
     (case pingInterval s of None \<Rightarrow> intervals s | Some h \<Rightarrow> removeAll h (intervals s))"
  by (simp add: stopPing_def split: option.splits)

lemma disconnect_intervals:
  "intervals (disconnect s) =
     (case pingInterval s of None \<Rightarrow> intervals s | Some h \<Rightarrow> removeAll h (intervals s))"
  by (simp add: disconnect_unfold Let_def intervals_stopPing split: option.splits)

lemma disconnect_sockets:
  "sockets (disconnect s) =
     (case ws s of
        None \<Rightarrow> sockets s
      | Some i \<Rightarrow>
          (case nth_opt (sockets s) i of
             None \<Rightarrow> sockets s
           | Some r \<Rightarrow> (sockets s)[i := WebSocket_close r]))"
  by (simp add: disconnect_unfold Let_def split: option.splits)

lemma MicrophoneCapture_stop_timeouts:
  "timeouts (fst (MicrophoneCapture_stop m)) =
     (case silenceTimer m of None \<Rightarrow> timeouts m | Some h \<Rightarrow> removeAll h (timeouts m))"
  by (simp add: MicrophoneCapture_stop_def flushBuffer_def clearTimeout_silence_def
      split_def split: option.splits)

lemma disconnect_closing:
  assumes "ws s = Some i" and "nth_opt (sockets s) i = Some r" and "r \<noteq> CLOSED"
  shows "nth_opt (sockets (disconnect s)) i = Some CLOSING"
  using assms disconnect_socket [OF assms(1,2)]
  by (cases r) (simp_all add: nth_opt_def split: if_splits)

lemma disconnect_then_close:
  assumes w: "ws s = Some i" and o: "nth_opt (sockets s) i = Some r" and c: "r \<noteq> CLOSED"
    and b: "reconnectAttempts s < MAX_RECONNECT_ATTEMPTS"
  shows "reconnectTimers (step silent (disconnect s) (Close i)) =
          reconnectTimers s @ [RECONNECT_DELAY_MS]"
    and "length (sockets (run silent (disconnect s) [Close i, ReconnectTimeout])) =
          Suc (length (sockets s))"
proof -
  let ?d = "disconnect s"
  let ?c = "?d\<lparr>sockets := (sockets ?d)[i := CLOSED]\<rparr>"
  from disconnect_closing [OF w o c] have st: "step silent ?d (Close i) = onclose ?c" by simp
  have a: "reconnectAttempts ?c < MAX_RECONNECT_ATTEMPTS"
    using b by (simp add: disconnect_keeps)
  have t: "reconnectTimers (onclose ?c) = reconnectTimers s @ [RECONNECT_DELAY_MS]"
    using onclose_fields(3) [OF a] by (simp add: disconnect_keeps)
  have "sockets (reconnect_timeout (onclose ?c)) = sockets (onclose ?c) @ [CONNECTING]"
    by (rule reconnect_timeout_sockets) (simp add: t)
  then have l: "length (sockets (reconnect_timeout (onclose ?c))) = Suc (length (sockets s))"
    by (simp add: onclose_fields(1) disconnect_socket [OF w o])
  from t st show "reconnectTimers (step silent (disconnect s) (Close i)) =
          reconnectTimers s @ [RECONNECT_DELAY_MS]"
    by (simp del: step.simps(3))
  from l st show "length (sockets (run silent (disconnect s) [Close i, ReconnectTimeout])) =
          Suc (length (sockets s))"
    by (simp del: step.simps(3))
qed

text \<open>
  Claim C6, as the code has it. \<open>disconnect()\<close> clears the heartbeat interval whose
  handle the session holds (the other pending intervals stay as they are), stops the
  capture the session refers to (not recording, stream released, buffer flushed, its
  debounce timeout cleared), calls \<open>close()\<close> on the socket and drops the reference to
  it. It does not cancel the reconnect loop: the reconnect timeouts pending before are
  pending after, and when the socket was not yet closed and the budget is not used up,
  the close event of that socket arms a further reconnect timeout, whose elapsing opens
  a new socket.
\<close>

theorem disconnect_keeps_reconnecting:
  "pingInterval (disconnect s) = None
   \<and> intervals (disconnect s) =
       (case pingInterval s of None \<Rightarrow> intervals s | Some h \<Rightarrow> removeAll h (intervals s))
   \<and> microphone (disconnect s) = None
   \<and> ws (disconnect s) = None
   \<and> sockets (disconnect s) =
       (case ws s of
          None \<Rightarrow> sockets s
        | Some i \<Rightarrow>
            (case nth_opt (sockets s) i of
               None \<Rightarrow> sockets s
             | Some r \<Rightarrow> (sockets s)[i := WebSocket_close r]))
   \<and> reconnectTimers (disconnect s) = reconnectTimers s
   \<and> reconnectAttempts (disconnect s) = reconnectAttempts s
   \<and> (microphone s = Some j \<and> nth_opt (microphones s) j = Some m \<longrightarrow>
        nth_opt (microphones (disconnect s)) j = Some (fst (MicrophoneCapture_stop m))
        \<and> \<not> isRecording (fst (MicrophoneCapture_stop m))
        \<and> \<not> mediaStream (fst (MicrophoneCapture_stop m))
        \<and> audioBuffer (fst (MicrophoneCapture_stop m)) = []
        \<and> silenceTimer (fst (MicrophoneCapture_stop m)) = None
        \<and> timeouts (fst (MicrophoneCapture_stop m)) =
            (case silenceTimer m of None \<Rightarrow> timeouts m | Some h \<Rightarrow> removeAll h (timeouts m)))
   \<and> (ws s = Some i \<and> nth_opt (sockets s) i = Some r \<and> r \<noteq> CLOSED \<longrightarrow>
        nth_opt (sockets (disconnect s)) i = Some CLOSING)
   \<and> (ws s = Some i \<and> nth_opt (sockets s) i = Some r \<and> r \<noteq> CLOSED
        \<and> reconnectAttempts s < MAX_RECONNECT_ATTEMPTS \<longrightarrow>
        reconnectTimers (step silent (disconnect s) (Close i)) =
          reconnectTimers s @ [RECONNECT_DELAY_MS]
        \<and> length (sockets (run silent (disconnect s) [Close i, ReconnectTimeout])) =
          Suc (length (sockets s)))"
proof -
  have 1: "intervals (disconnect s) =
       (case pingInterval s of None \<Rightarrow> intervals s | Some h \<Rightarrow> removeAll h (intervals s))"
    by (rule disconnect_intervals)
  have 2: "sockets (disconnect s) =
       (case ws s of
          None \<Rightarrow> sockets s
        | Some i \<Rightarrow>
            (case nth_opt (sockets s) i of
               None \<Rightarrow> sockets s
             | Some r \<Rightarrow> (sockets s)[i := WebSocket_close r]))"
    by (rule disconnect_sockets)
  have 3: "timeouts (fst (MicrophoneCapture_stop m)) =
            (case silenceTimer m of None \<Rightarrow> timeouts m | Some h \<Rightarrow> removeAll h (timeouts m))"
    by (rule MicrophoneCapture_stop_timeouts)
  have 4: "microphone s = Some j \<and> nth_opt (microphones s) j = Some m \<longrightarrow>
        nth_opt (microphones (disconnect s)) j = Some (fst (MicrophoneCapture_stop m))"
    using disconnect_microphone [of s j m] by blast
  have 5: "ws s = Some i \<and> nth_opt (sockets s) i = Some r \<and> r \<noteq> CLOSED \<longrightarrow>
        nth_opt (sockets (disconnect s)) i = Some CLOSING"
    using disconnect_closing [of s i r] by blast
  have 6: "ws s = Some i \<and> nth_opt (sockets s) i = Some r \<and> r \<noteq> CLOSED
        \<and> reconnectAttempts s < MAX_RECONNECT_ATTEMPTS \<longrightarrow>
        reconnectTimers (step silent (disconnect s) (Close i)) =
          reconnectTimers s @ [RECONNECT_DELAY_MS]
        \<and> length (sockets (run silent (disconnect s) [Close i, ReconnectTimeout])) =
          Suc (length (sockets s))"
    using disconnect_then_close [of s i r silent] by blast
  from 1 2 3 4 5 6 disconnect_keeps [of s] MicrophoneCapture_stop_stopped [of m]
  show ?thesis by blast
qed

text \<open>The theorem at a connected session that is listening.\<close>

theorem disconnect_keeps_reconnecting_witness:
  "microphone (run (\<lambda>c. False) new_VoiceAgentWebSocket [Connect, Open 0, StartListening Granted])
      = Some 0
   \<and> nth_opt (microphones (run (\<lambda>c. False) new_VoiceAgentWebSocket
        [Connect, Open 0, StartListening Granted])) 0
      = Some (new_MicrophoneCapture\<lparr>mediaStream := True, isRecording := True\<rparr>)
   \<and> ws (run (\<lambda>c. False) new_VoiceAgentWebSocket [Connect, Open 0, StartListening Granted])
      = Some 0
   \<and> nth_opt (sockets (run (\<lambda>c. False) new_VoiceAgentWebSocket
        [Connect, Open 0, StartListening Granted])) 0 = Some OPEN
   \<and> OPEN \<noteq> CLOSED
   \<and> reconnectAttempts (run (\<lambda>c. False) new_VoiceAgentWebSocket
        [Connect, Open 0, StartListening Granted]) < MAX_RECONNECT_ATTEMPTS
   \<and> intervals (disconnect (run (\<lambda>c. False) new_VoiceAgentWebSocket
        [Connect, Open 0, StartListening Granted])) = []
   \<and> nth_opt (sockets (disconnect (run (\<lambda>c. False) new_VoiceAgentWebSocket
        [Connect, Open 0, StartListening Granted]))) 0 = Some CLOSING
   \<and> reconnectTimers (step (\<lambda>c. False)
        (disconnect (run (\<lambda>c. False) new_VoiceAgentWebSocket
           [Connect, Open 0, StartListening Granted])) (Close 0)) = [RECONNECT_DELAY_MS]
   \<and> nth_opt (microphones (disconnect (run (\<lambda>c. False) new_VoiceAgentWebSocket
        [Connect, Open 0, StartListening Granted]))) 0
      = Some (fst (MicrophoneCapture_stop
          (new_MicrophoneCapture\<lparr>mediaStream := True, isRecording := True\<rparr>)))"
proof -
  define s where "s = run (\<lambda>c. False) new_VoiceAgentWebSocket
      [Connect, Open 0, StartListening Granted]"
  note f = listening_facts [of "\<lambda>c. False", folded s_def]
  have b: "reconnectAttempts s < MAX_RECONNECT_ATTEMPTS"
    by (simp add: f MAX_RECONNECT_ATTEMPTS_def)
  have p: "pingInterval s = Some 1" "intervals s = [1]"
    unfolding s_def listening_run by simp_all
  let ?m = "new_MicrophoneCapture\<lparr>mediaStream := True, isRecording := True\<rparr>"
  note t = disconnect_keeps_reconnecting [where s = s and i = 0 and j = 0 and r = OPEN and silent = "\<lambda>c. False"
      and m = ?m]
  have h1: "microphone s = Some 0 \<and> nth_opt (microphones s) 0 = Some ?m"
    by (simp add: f)
  have h2: "ws s = Some 0 \<and> nth_opt (sockets s) 0 = Some OPEN \<and> OPEN \<noteq> CLOSED"
    by (simp add: f)
  from t h1 h2 b
  have "intervals (disconnect s) =
        (case pingInterval s of None \<Rightarrow> intervals s | Some h \<Rightarrow> removeAll h (intervals s))
      \<and> nth_opt (sockets (disconnect s)) 0 = Some CLOSING
      \<and> reconnectTimers (step (\<lambda>c. False) (disconnect s) (Close 0)) =
          reconnectTimers s @ [RECONNECT_DELAY_MS]
      \<and> nth_opt (microphones (disconnect s)) 0 = Some (fst (MicrophoneCapture_stop ?m))"
    by blast
  with f b p show ?thesis
    unfolding s_def [symmetric] by (simp del: step.simps run_Cons)
qed

text \<open>
  Claim C6 as stated fails: after \<open>disconnect()\<close> on a connected session, the close
  event leaves a reconnect timeout pending, and its elapsing creates a second socket.
\<close>

theorem disconnect_keeps_reconnecting_counterexample:
  "reconnectTimers (run (\<lambda>c. False) new_VoiceAgentWebSocket
       [Connect, Open 0, Disconnect, Close 0]) = [RECONNECT_DELAY_MS]
   \<and> length (sockets (run (\<lambda>c. False) new_VoiceAgentWebSocket
       [Connect, Open 0, Disconnect, Close 0, ReconnectTimeout])) = 2"
proof -
  define s where "s = run (\<lambda>c. False) new_VoiceAgentWebSocket [Connect, Open 0]"
  have r1: "run (\<lambda>c. False) new_VoiceAgentWebSocket [Connect, Open 0, Disconnect, Close 0] =
      step (\<lambda>c. False) (disconnect s) (Close 0)"
    unfolding s_def by (simp del: step.simps(1-3))
  have r2: "run (\<lambda>c. False) new_VoiceAgentWebSocket
       [Connect, Open 0, Disconnect, Close 0, ReconnectTimeout] =
      run (\<lambda>c. False) (disconnect s) [Close 0, ReconnectTimeout]"
    unfolding s_def by (simp del: step.simps(1-3,5))
  note f = connected_facts [of "\<lambda>c. False", folded s_def]
  have b: "reconnectAttempts s < MAX_RECONNECT_ATTEMPTS"
    by (simp add: f MAX_RECONNECT_ATTEMPTS_def)
  have c: "OPEN \<noteq> CLOSED" by simp
  note d = disconnect_then_close [OF f(1,2) c b, of "\<lambda>c. False"]
  show ?thesis
    unfolding r1 r2 using d by (simp add: f del: step.simps run_Cons)
qed

end
